theory Spec2Isabelle
  imports Complex_Main "HOL-Library.AList"
begin

section \<open>The geometry module of SceneJS: data model\<close>

text \<open>
  The module \<^verbatim>\<open>SceneJS_geometryModule\<close> keeps five variables (\<^verbatim>\<open>time\<close>, \<^verbatim>\<open>canvas\<close>,
  \<^verbatim>\<open>geoMaps\<close>, \<^verbatim>\<open>currentGeoMap\<close>, \<^verbatim>\<open>currentBoundGeoType\<close>) and talks to the page
  (\<^verbatim>\<open>document.getElementById\<close>), to WebGL and to the event module. The embedding passes
  the five variables around as a record, together with the part of the host that the code
  reads (which canvas elements are in the page) and a log of the calls the code makes on
  buffers, on the WebGL context and on the event module, in the order it makes them.
  Calls of the logging module (the warning at line 160, the logging that
  \<^verbatim>\<open>fatalError\<close> does before it throws) are not in the log.

  A function that can throw returns the exception beside the state it leaves behind:
  the module's variables are global, so what a handler or a call has written before it
  throws stays written.
\<close>

text \<open>
  The values that the module throws or lets through. \<open>Undefined\<close> is the JavaScript value
  \<^verbatim>\<open>undefined\<close>: line 324 calls \<^verbatim>\<open>SceneJS.exceptions.NoCanvasActiveException\<close> without
  \<^verbatim>\<open>new\<close> (lines 209 and 240 construct their exceptions with \<^verbatim>\<open>new\<close>), so the constructor
  runs as a plain function, the call has the value \<^verbatim>\<open>undefined\<close>, and that value is what
  the error module is handed. No line of the module constructs a
  \<open>NoCanvasActiveException\<close>; the constructor is kept to say so.
\<close>

datatype exn =
    NodeConfigExpectedException
  | InvalidGeometryConfigException
  | NoCanvasActiveException
  | TypeError
  | OutOfMemoryException
  | Undefined

text \<open>
  Modelled from the spec: \<^verbatim>\<open>SceneJS_errorModule.fatalError(e)\<close> is not part of these
  sources. The spec calls its errors fatal, logged and raised to the caller, and line 209
  comments the call with "Logs and throws": it raises the value it is handed.
\<close>

abbreviation (input) fatalError :: "exn \<Rightarrow> exn" where
  "fatalError e \<equiv> e"

datatype glenum = POINTS | LINES | LINE_LOOP | LINE_STRIP | TRIANGLES | TRIANGLE_STRIP | TRIANGLE_FAN

datatype target = ARRAY_BUFFER | ELEMENT_ARRAY_BUFFER

text \<open>
  A \<^verbatim>\<open>SceneJS_webgl_ArrayBuffer\<close> object: \<open>handle\<close> is the identity of the object (no two
  buffers made by the module share it), the other fields are the constructor's arguments
  that the module reads back.
\<close>

record buffer =
  handle :: nat
  bufType :: target
  numItems :: nat
  itemSize :: nat

record canvas =
  canvasId :: string

text \<open>
  The geometry object built at lines 280-292. \<^verbatim>\<open>vertexBuf\<close> and \<^verbatim>\<open>indexBuf\<close> are assigned
  on every path that reaches the object literal, the other three buffers only when the
  data has the array, so they are optional. \<^verbatim>\<open>context\<close> is \<^verbatim>\<open>canvas.context\<close> and is not
  kept apart.
\<close>

record geometry =
  fixed :: bool
  primitive :: glenum
  type :: string
  lastUsed :: int
  canvas :: canvas
  vertexBuf :: buffer
  normalBuf :: "buffer option"
  indexBuf :: buffer
  uvBuf :: "buffer option"
  uvBuf2 :: "buffer option"

text \<open>The \<^verbatim>\<open>data\<close> argument of \<^verbatim>\<open>createGeometry\<close>.\<close>

record data =
  primitive :: "string option"
  positions :: "real list"
  normals :: "real list option"
  uv :: "real list option"
  uv2 :: "real list option"
  indices :: "nat list"

datatype event =
    GEOMETRY_UPDATED "geometry option"
  | SHADER_ACTIVATE
  | GEOMETRY_EXPORTED geometry

datatype effect =
    Create buffer
  | Destroy buffer
  | Bind buffer
  | DisableVertexAttribArray nat
  | DrawElements glenum nat
  | Flush
  | FireEvent event

text \<open>
  A JavaScript object used as a map is an association list in insertion order, the order
  in which \<^verbatim>\<open>for (k in obj)\<close> visits the keys: \<^const>\<open>map_of\<close> reads a key,
  \<^const>\<open>AList.update\<close> is \<^verbatim>\<open>obj[k] = v\<close> (in place for a key that is there, at the end
  for a new one) and \<^const>\<open>AList.map_entry\<close> changes the value under a key that is there.
  A slot of a geometry map holds \<open>Some geo\<close> or \<open>None\<close> for \<^verbatim>\<open>null\<close>; a key that was
  never stored is not in the list. Canvas ids and type ids are taken to be ordinary
  names: not the name of a property that every JavaScript object inherits (such as
  \<^verbatim>\<open>toString\<close>, for which \<^verbatim>\<open>obj[k]\<close> answers with the inherited function), and not a
  numeral (which \<^verbatim>\<open>for (k in obj)\<close> visits before the other keys).

  \<^verbatim>\<open>currentGeoMap\<close> is a reference to one of the objects held in \<^verbatim>\<open>geoMaps\<close>
  (line 63), so it is kept as the key of that object: a write through \<^verbatim>\<open>currentGeoMap\<close>
  is a write to \<^verbatim>\<open>geoMaps[canvasId]\<close>.
\<close>

type_synonym geoMap = "(string \<times> geometry option) list"

record state =
  time :: int
  canvas :: "canvas option"
  geoMaps :: "(string \<times> geoMap) list"
  currentGeoMap :: "string option"
  currentBoundGeoType :: "string option"
  document :: "string list"
  allocated :: nat
  effects :: "effect list"

definition emit :: "effect list \<Rightarrow> state \<Rightarrow> state" where
  "emit es s = s\<lparr>effects := effects s @ es\<rparr>"

definition slot :: "state \<Rightarrow> string \<Rightarrow> string \<Rightarrow> geometry option" where
  "slot s cid ty =
     (case map_of (geoMaps s) cid of
        None \<Rightarrow> None
      | Some geoMap \<Rightarrow> (case map_of geoMap ty of Some (Some geo) \<Rightarrow> Some geo | _ \<Rightarrow> None))"

section \<open>destroyGeometry (lines 108-134)\<close>

text \<open>
  \<open>held b\<close> is the buffer behind \<^verbatim>\<open>if (b)\<close>: the list is empty when the variable or field
  is not set.
\<close>

definition held :: "buffer option \<Rightarrow> buffer list" where
  "held b = (case b of Some buf \<Rightarrow> [buf] | None \<Rightarrow> [])"

definition destroyBuffers :: "geometry \<Rightarrow> effect list" where
  "destroyBuffers geo =
     [Destroy (vertexBuf geo)]
     @ map Destroy (held (normalBuf geo))
     @ (if normalBuf geo \<noteq> None then [Destroy (indexBuf geo)] else [])
     @ map Destroy (held (uvBuf geo))
     @ map Destroy (held (uvBuf2 geo))"

definition destroyGeometry :: "geometry \<Rightarrow> state \<Rightarrow> state" where
  "destroyGeometry geo s =
     (let s1 = (if currentBoundGeoType s = Some (type geo)
                then s\<lparr>currentBoundGeoType := None\<rparr> else s);
          s2 = (if canvasId (geometry.canvas geo) \<in> set (document s1)
                then emit (destroyBuffers geo) s1 else s1)
      in s2\<lparr>geoMaps :=
              AList.map_entry (canvasId (geometry.canvas geo))
                (AList.update (type geo) None) (geoMaps s2)\<rparr>)"

section \<open>The handlers of the events the module listens to (lines 42-101)\<close>

datatype inbound =
    TIME_UPDATED int
  | SCENE_ACTIVATED
  | CANVAS_ACTIVATED canvas
  | CANVAS_DEACTIVATED
  | SHADER_ACTIVATED
  | SHADER_DEACTIVATED
  | RESET

text \<open>
  The two loops of the RESET handler (lines 90-96). Each loop visits the keys its object
  had when the loop began and reads the value under the key when it gets there.
  \<^verbatim>\<open>destroyGeometry(geometry)\<close> reads \<^verbatim>\<open>geo.type\<close> first, which throws a TypeError when the
  slot holds \<^verbatim>\<open>null\<close>; the exception leaves the handler with the state as it is then.
\<close>

fun resetGeoMap :: "string \<Rightarrow> string list \<Rightarrow> state \<Rightarrow> exn option \<times> state" where
  "resetGeoMap cid [] s = (None, s)"
| "resetGeoMap cid (ty # tys) s =
     (case slot s cid ty of
        None \<Rightarrow> (Some TypeError, s)
      | Some geometry \<Rightarrow> resetGeoMap cid tys (destroyGeometry geometry s))"

fun resetGeoMaps :: "string list \<Rightarrow> state \<Rightarrow> exn option \<times> state" where
  "resetGeoMaps [] s = (None, s)"
| "resetGeoMaps (cid # cids) s =
     (case map_of (geoMaps s) cid of
        None \<Rightarrow> resetGeoMaps cids s
      | Some geoMap \<Rightarrow>
          (case resetGeoMap cid (map fst geoMap) s of
             (Some e, s') \<Rightarrow> (Some e, s')
           | (None, s') \<Rightarrow> resetGeoMaps cids s'))"

fun onEvent :: "inbound \<Rightarrow> state \<Rightarrow> exn option \<times> state" where
  "onEvent (TIME_UPDATED t) s = (None, s\<lparr>time := t\<rparr>)"
| "onEvent SCENE_ACTIVATED s =
     (None, s\<lparr>state.canvas := None, currentGeoMap := None, currentBoundGeoType := None\<rparr>)"
| "onEvent (CANVAS_ACTIVATED c) s =
     (let s1 = (if map_of (geoMaps s) (canvasId c) = None
                then s\<lparr>geoMaps := AList.update (canvasId c) [] (geoMaps s)\<rparr> else s)
      in (None, s1\<lparr>state.canvas := Some c, currentGeoMap := Some (canvasId c),
                    currentBoundGeoType := None\<rparr>))"
| "onEvent CANVAS_DEACTIVATED s =
     (None, s\<lparr>state.canvas := None, currentGeoMap := None, currentBoundGeoType := None\<rparr>)"
| "onEvent SHADER_ACTIVATED s = (None, s\<lparr>currentBoundGeoType := None\<rparr>)"
| "onEvent SHADER_DEACTIVATED s = (None, s\<lparr>currentBoundGeoType := None\<rparr>)"
| "onEvent RESET s =
     (case resetGeoMaps (map fst (geoMaps s)) s of
        (Some e, s') \<Rightarrow> (Some e, s')
      | (None, s') \<Rightarrow>
          (None, s'\<lparr>state.canvas := None, geoMaps := [], currentGeoMap := None,
                    currentBoundGeoType := None\<rparr>))"

text \<open>The module's variables when it is loaded (lines 36-40), at clock value \<open>t\<close>.\<close>

definition init :: "int \<Rightarrow> string list \<Rightarrow> state" where
  "init t doc =
     \<lparr>time = t, canvas = None, geoMaps = [], currentGeoMap = None,
      currentBoundGeoType = None, document = doc, allocated = 0, effects = []\<rparr>"

section \<open>The evictor registered with the memory module (lines 140-165)\<close>

text \<open>
  The scan keeps \<^verbatim>\<open>earliest\<close> and \<^verbatim>\<open>evictee\<close>; \<open>visit\<close> is the body of the inner loop
  for one slot, \<open>scanGeoMap\<close> the inner loop and \<open>scanGeoMaps\<close> the outer one.
\<close>

definition visit :: "string list \<Rightarrow> int \<times> geometry option \<Rightarrow> geometry option
    \<Rightarrow> int \<times> geometry option" where
  "visit doc acc sl =
     (case sl of
        None \<Rightarrow> acc
      | Some geometry \<Rightarrow>
          if lastUsed geometry < fst acc \<and> canvasId (geometry.canvas geometry) \<in> set doc
          then (lastUsed geometry, Some geometry) else acc)"

fun scanGeoMap :: "string list \<Rightarrow> geoMap \<Rightarrow> int \<times> geometry option \<Rightarrow> int \<times> geometry option" where
  "scanGeoMap doc [] acc = acc"
| "scanGeoMap doc ((ty, sl) # geoMap) acc = scanGeoMap doc geoMap (visit doc acc sl)"

fun scanGeoMaps :: "string list \<Rightarrow> (string \<times> geoMap) list \<Rightarrow> int \<times> geometry option
    \<Rightarrow> int \<times> geometry option" where
  "scanGeoMaps doc [] acc = acc"
| "scanGeoMaps doc ((cid, geoMap) # rest) acc = scanGeoMaps doc rest (scanGeoMap doc geoMap acc)"

definition evictee :: "state \<Rightarrow> geometry option" where
  "evictee s = snd (scanGeoMaps (document s) (geoMaps s) (time s, None))"

definition evictor :: "state \<Rightarrow> bool \<times> state" where
  "evictor s =
     (case evictee s of
        Some geometry \<Rightarrow> (True, destroyGeometry geometry s)
      | None \<Rightarrow> (False, s))"

section \<open>Allocation (lines 178-186)\<close>

text \<open>
  Modelled from the spec: \<^verbatim>\<open>SceneJS_memoryModule.allocate(description, fn)\<close> is not part
  of these sources. The spec gives its contract: it runs the allocating closure, retries
  it through the registered evictors when it fails, and propagates an out-of-memory error
  when no retry helps. What the memory module decides is a parameter: for each
  description, how many times it calls this module's evictor before the outcome, and
  whether the outcome is a buffer or the error. Evictors of other modules do not touch
  this module's variables.
\<close>

type_synonym memoryModule = "string \<Rightarrow> nat \<times> bool"

fun evictions :: "nat \<Rightarrow> state \<Rightarrow> state" where
  "evictions 0 s = s"
| "evictions (Suc n) s = evictions n (snd (evictor s))"

definition createArrayBuffer :: "memoryModule \<Rightarrow> string \<Rightarrow> target \<Rightarrow> nat \<Rightarrow> nat \<Rightarrow> state
    \<Rightarrow> (exn + buffer) \<times> state" where
  "createArrayBuffer allocate description btype nitems isize s =
     (let s1 = evictions (fst (allocate description)) s
      in if snd (allocate description)
         then (let buf = \<lparr>handle = allocated s1, bufType = btype, numItems = nitems,
                           itemSize = isize\<rparr>
               in (Inr buf, emit [Create buf] (s1\<lparr>allocated := Suc (allocated s1)\<rparr>)))
         else (Inl OutOfMemoryException, s1))"

section \<open>getPrimitiveType and testGeometryExists (lines 192-224)\<close>

definition getPrimitiveType :: "string \<Rightarrow> exn + glenum" where
  "getPrimitiveType prim =
     (if prim = ''points'' then Inr POINTS
      else if prim = ''lines'' then Inr LINES
      else if prim = ''line-loop'' then Inr LINE_LOOP
      else if prim = ''line-strip'' then Inr LINE_STRIP
      else if prim = ''triangles'' then Inr TRIANGLES
      else if prim = ''triangle-strip'' then Inr TRIANGLE_STRIP
      else if prim = ''triangle-fan'' then Inr TRIANGLE_FAN
      else Inl (fatalError InvalidGeometryConfigException))"

definition currentCache :: "state \<Rightarrow> geoMap option" where
  "currentCache s =
     (case currentGeoMap s of None \<Rightarrow> None | Some cid \<Rightarrow> map_of (geoMaps s) cid)"

definition testGeometryExists :: "string \<Rightarrow> state \<Rightarrow> exn + bool" where
  "testGeometryExists ty s =
     (case currentGeoMap s of
        None \<Rightarrow> Inl TypeError
      | Some cid \<Rightarrow> Inr (slot s cid ty \<noteq> None))"

section \<open>createGeometry (lines 231-314)\<close>

text \<open>
  \<^verbatim>\<open>!type\<close> and \<^verbatim>\<open>!data.primitive\<close> hold for an absent value and for the empty string.
\<close>

definition truthy :: "string option \<Rightarrow> bool" where
  "truthy x = (case x of None \<Rightarrow> False | Some str \<Rightarrow> str \<noteq> [])"

text \<open>
  An optional buffer (lines 258-275): allocated when the array is there and not empty.
\<close>

definition createOptionalBuffer :: "memoryModule \<Rightarrow> string \<Rightarrow> real list option \<Rightarrow> nat \<Rightarrow> state
    \<Rightarrow> (exn + buffer option) \<times> state" where
  "createOptionalBuffer allocate description values isize s =
     (case values of
        None \<Rightarrow> (Inr None, s)
      | Some vs \<Rightarrow>
          if length vs > 0
          then (case createArrayBuffer allocate description ARRAY_BUFFER (length vs) isize s of
                  (Inl e, s') \<Rightarrow> (Inl e, s')
                | (Inr buf, s') \<Rightarrow> (Inr (Some buf), s'))
          else (Inr None, s))"

text \<open>
  The catch block (lines 295-313): destroys the buffers assigned so far, in the order
  vertex, normal, uv, uv2, index; the caller of \<open>catch\<close> then re-raises.
\<close>

definition catch :: "buffer option \<Rightarrow> buffer option \<Rightarrow> buffer option \<Rightarrow> buffer option
    \<Rightarrow> buffer option \<Rightarrow> state \<Rightarrow> state" where
  "catch vertexBuf' normalBuf' uvBuf' uvBuf2' indexBuf' s =
     emit (map Destroy (held vertexBuf' @ held normalBuf' @ held uvBuf' @ held uvBuf2'
                        @ held indexBuf')) s"

text \<open>
  Modelled from the spec: \<^verbatim>\<open>SceneJS._utils.createKeyForMap(currentGeoMap, "type")\<close> is not
  part of these sources; the spec says it generates a fresh identifier unique within the
  active surface's cache. It is a parameter of \<open>createGeometry\<close>, applied to the selected
  cache; with no cache selected there is no object to look keys up in, and the call is
  taken to throw a TypeError as the other reads of an absent cache do.
\<close>

type_synonym keygen = "geoMap \<Rightarrow> string \<Rightarrow> string"

definition createGeometry :: "keygen \<Rightarrow> memoryModule \<Rightarrow> string option \<Rightarrow> data \<Rightarrow> state
    \<Rightarrow> (exn + string) \<times> state" where
  "createGeometry createKeyForMap allocate type0 data s =
     (case (if truthy type0 then Inr (the type0)
            else (case currentCache s of
                    None \<Rightarrow> Inl TypeError
                  | Some geoMap \<Rightarrow> Inr (createKeyForMap geoMap ''type''))) of
        Inl e \<Rightarrow> (Inl e, s)
      | Inr ty \<Rightarrow>
     if \<not> truthy (data.primitive data) then (Inl (fatalError NodeConfigExpectedException), s) else
     (case state.canvas s of
        None \<Rightarrow> (Inl TypeError, s)
      | Some c \<Rightarrow>
     (case createArrayBuffer allocate ''geometry vertex buffer'' ARRAY_BUFFER
             (length (positions data)) 3 s of
        (Inl e, s1) \<Rightarrow> (Inl e, catch None None None None None s1)
      | (Inr vertexBuf', s1) \<Rightarrow>
     (case createOptionalBuffer allocate ''geometry normal buffer'' (normals data) 3 s1 of
        (Inl e, s2) \<Rightarrow> (Inl e, catch (Some vertexBuf') None None None None s2)
      | (Inr normalBuf', s2) \<Rightarrow>
     (case createOptionalBuffer allocate ''geometry UV buffer'' (uv data) 2 s2 of
        (Inl e, s3) \<Rightarrow> (Inl e, catch (Some vertexBuf') normalBuf' None None None s3)
      | (Inr uvBuf', s3) \<Rightarrow>
     (case createOptionalBuffer allocate ''geometry UV2 buffer'' (uv2 data) 2 s3 of
        (Inl e, s4) \<Rightarrow> (Inl e, catch (Some vertexBuf') normalBuf' uvBuf' None None s4)
      | (Inr uvBuf2', s4) \<Rightarrow>
     (case createArrayBuffer allocate ''geometry index buffer'' ELEMENT_ARRAY_BUFFER
             (length (indices data)) 1 s4 of
        (Inl e, s5) \<Rightarrow> (Inl e, catch (Some vertexBuf') normalBuf' uvBuf' uvBuf2' None s5)
      | (Inr indexBuf', s5) \<Rightarrow>
     (case getPrimitiveType (the (data.primitive data)) of
        Inl e \<Rightarrow> (Inl e, catch (Some vertexBuf') normalBuf' uvBuf' uvBuf2' (Some indexBuf') s5)
      | Inr prim \<Rightarrow>
     (case currentGeoMap s5 of
        None \<Rightarrow>
          (Inl TypeError, catch (Some vertexBuf') normalBuf' uvBuf' uvBuf2' (Some indexBuf') s5)
      | Some cid \<Rightarrow>
          (let geo = \<lparr>fixed = True, primitive = prim, type = ty, lastUsed = time s5,
                      canvas = c, vertexBuf = vertexBuf', normalBuf = normalBuf',
                      indexBuf = indexBuf', uvBuf = uvBuf', uvBuf2 = uvBuf2'\<rparr>
           in (Inr ty,
               s5\<lparr>geoMaps :=
                    AList.map_entry cid (AList.update ty (Some geo)) (geoMaps s5)\<rparr>)))))))))))"

section \<open>drawGeometry (lines 322-370)\<close>

text \<open>
  The module's header says that the shader backend may answer \<^verbatim>\<open>SHADER_ACTIVATE\<close> by
  firing \<^verbatim>\<open>SHADER_ACTIVATED\<close>, which this module handles (lines 75-79) before
  \<^verbatim>\<open>fireEvent\<close> returns. Whether it does is the parameter \<open>shaderActivated\<close>. Nothing
  else re-enters the module during a draw.

  With no canvas active, line 324 hands \<^verbatim>\<open>fatalError\<close> the value of
  \<^verbatim>\<open>SceneJS.exceptions.NoCanvasActiveException("No canvas active")\<close>, a call without
  \<^verbatim>\<open>new\<close>: the value is \<^verbatim>\<open>undefined\<close>, and that is what is raised.
\<close>

definition drawGeometry :: "bool \<Rightarrow> string \<Rightarrow> state \<Rightarrow> exn option \<times> state" where
  "drawGeometry shaderActivated ty s =
     (case state.canvas s of
        None \<Rightarrow> (Some (fatalError Undefined), s)
      | Some c \<Rightarrow>
     (case currentGeoMap s of
        None \<Rightarrow> (Some TypeError, s)
      | Some cid \<Rightarrow>
          (let geo0 = slot s cid ty;
               s1 = emit [FireEvent (GEOMETRY_UPDATED geo0), FireEvent SHADER_ACTIVATE] s;
               s2 = (if shaderActivated then snd (onEvent SHADER_ACTIVATED s1) else s1)
           in (case geo0 of
                 None \<Rightarrow> (Some TypeError, s2)
               | Some g \<Rightarrow>
                   (let geo = g\<lparr>lastUsed := time s2\<rparr>;
                        s3 = s2\<lparr>geoMaps :=
                                 AList.map_entry cid (AList.update ty (Some geo)) (geoMaps s2)\<rparr>;
                        s4 = (if currentBoundGeoType s3 \<noteq> Some ty
                              then (emit (map DisableVertexAttribArray [0..<8]
                                          @ [FireEvent (GEOMETRY_EXPORTED geo), Bind (indexBuf geo)]) s3)
                                     \<lparr>currentBoundGeoType := Some ty\<rparr>
                              else s3)
                    in (None, emit [DrawElements (geometry.primitive geo) (numItems (indexBuf geo)),
                                    Flush] s4))))))"

section \<open>Runs of the module\<close>

text \<open>
  What can happen to the module between two moments: one of the seven events arrives, the
  memory module calls the evictor, or a scene node calls one of the three public
  functions.
\<close>

datatype call =
    Event inbound
  | Evict
  | TestGeometryExists string
  | CreateGeometry memoryModule "string option" data
  | DrawGeometry bool string

fun step :: "keygen \<Rightarrow> call \<Rightarrow> state \<Rightarrow> state" where
  "step k (Event ev) s = snd (onEvent ev s)"
| "step k Evict s = snd (evictor s)"
| "step k (TestGeometryExists ty) s = s"
| "step k (CreateGeometry allocate type0 d) s = snd (createGeometry k allocate type0 d s)"
| "step k (DrawGeometry shaderActivated ty) s = snd (drawGeometry shaderActivated ty s)"

fun run :: "keygen \<Rightarrow> call list \<Rightarrow> state \<Rightarrow> state" where
  "run k [] s = s"
| "run k (c # cs) s = run k cs (step k c s)"

section \<open>Vocabulary of the properties\<close>

text \<open>
  The slots of all caches in the order the evictor visits them, the records they hold, and
  the records the evictor's test at lines 150-151 lets through.
\<close>

definition slots :: "state \<Rightarrow> geometry option list" where
  "slots s = concat (map (\<lambda>(cid, geoMap). map snd geoMap) (geoMaps s))"

definition records :: "state \<Rightarrow> geometry list" where
  "records s = List.map_filter id (slots s)"

definition evictable :: "state \<Rightarrow> geometry \<Rightarrow> bool" where
  "evictable s geo =
     (lastUsed geo < time s \<and> canvasId (geometry.canvas geo) \<in> set (document s))"

text \<open>
  The buffers a stretch of the log creates; the part of the state the evictor reads and
  writes; the evictions a memory module asks for over one createGeometry call; and what
  is true of the state \<open>s1\<close> reached from \<open>s\<close> part-way through the allocations of one
  call: at most \<open>m\<close> runs of the evictor have happened, and the log has grown by the
  creation of the buffers \<open>bufs\<close> and by what the evictions destroyed.
\<close>

definition created :: "effect list \<Rightarrow> buffer list" where
  "created es = concat (map (\<lambda>e. case e of Create b \<Rightarrow> [b] | _ \<Rightarrow> []) es)"

definition core :: "state \<Rightarrow> int \<times> (string \<times> geoMap) list \<times> string list \<times> string option" where
  "core s = (time s, geoMaps s, document s, currentBoundGeoType s)"

definition requested :: "memoryModule \<Rightarrow> nat" where
  "requested allocate =
     fst (allocate ''geometry vertex buffer'') + fst (allocate ''geometry normal buffer'')
     + fst (allocate ''geometry UV buffer'') + fst (allocate ''geometry UV2 buffer'')
     + fst (allocate ''geometry index buffer'')"

definition during :: "state \<Rightarrow> nat \<Rightarrow> buffer list \<Rightarrow> state \<Rightarrow> bool" where
  "during s m bufs s1 =
     (state.canvas s1 = state.canvas s \<and> currentGeoMap s1 = currentGeoMap s
      \<and> (\<exists>n\<le>m. core s1 = core (evictions n s))
      \<and> (\<exists>es. effects s1 = effects s @ es \<and> created es = bufs))"

text \<open>
  The seven primitive kinds the spec lists, and the two exceptions it calls configuration
  errors.
\<close>

definition kinds :: "string list" where
  "kinds = [''points'', ''lines'', ''line-loop'', ''line-strip'', ''triangles'',
            ''triangle-strip'', ''triangle-fan'']"


text \<open>
  What holds of the caches in every state the module can reach: a JavaScript object has
  each key once; a record sits in the cache of its own canvas under its own type (line
  293 stores it so and nothing moves it); and \<^verbatim>\<open>canvas\<close> and \<^verbatim>\<open>currentGeoMap\<close> are set and
  cleared together, \<^verbatim>\<open>currentGeoMap\<close> being the cache of \<^verbatim>\<open>canvas\<close>. \<open>boundValid\<close> is the
  invariant of the spec on the bound type.
\<close>

definition wfGeoMap :: "string \<Rightarrow> geoMap \<Rightarrow> bool" where
  "wfGeoMap cid geoMap =
     (distinct (map fst geoMap)
      \<and> (\<forall>(ty, sl) \<in> set geoMap.
            case sl of None \<Rightarrow> True
            | Some geo \<Rightarrow> type geo = ty \<and> canvasId (geometry.canvas geo) = cid))"

definition wf :: "state \<Rightarrow> bool" where
  "wf s =
     (distinct (map fst (geoMaps s))
      \<and> (\<forall>(cid, geoMap) \<in> set (geoMaps s). wfGeoMap cid geoMap)
      \<and> (case currentGeoMap s of
            None \<Rightarrow> state.canvas s = None
          | Some cid \<Rightarrow>
              map_option canvasId (state.canvas s) = Some cid \<and> cid \<in> fst ` set (geoMaps s)))"

definition boundValid :: "state \<Rightarrow> bool" where
  "boundValid s =
     (case currentBoundGeoType s of
        None \<Rightarrow> True
      | Some ty \<Rightarrow> (case currentGeoMap s of None \<Rightarrow> False | Some cid \<Rightarrow> slot s cid ty \<noteq> None))"

text \<open>
  The records that the \<^verbatim>\<open>GEOMETRY_EXPORTED\<close> events of a log carry; the types at which a
  sequence of draws changes the bound type, starting from the bound type \<open>b\<close>; and a
  sequence of drawGeometry calls with nothing in between (the shader backend does not
  answer with \<^verbatim>\<open>SHADER_ACTIVATED\<close>), which stops at the first exception.
\<close>

definition exported :: "effect list \<Rightarrow> geometry list" where
  "exported es =
     concat (map (\<lambda>e. case e of FireEvent (GEOMETRY_EXPORTED geo) \<Rightarrow> [geo] | _ \<Rightarrow> []) es)"

fun changes :: "string option \<Rightarrow> string list \<Rightarrow> string list" where
  "changes b [] = []"
| "changes b (t # ts) = (if b = Some t then [] else [t]) @ changes (Some t) ts"

fun drawAll :: "string list \<Rightarrow> state \<Rightarrow> exn option \<times> state" where
  "drawAll [] s = (None, s)"
| "drawAll (ty # tys) s =
     (case drawGeometry False ty s of
        (Some e, s') \<Rightarrow> (Some e, s')
      | (None, s') \<Rightarrow> drawAll tys s')"

text \<open>
  No rendering surface is active: \<^verbatim>\<open>canvas\<close> and \<^verbatim>\<open>currentGeoMap\<close> are null. Only the
  handler of \<^verbatim>\<open>CANVAS_ACTIVATED\<close> sets them.
\<close>

fun activates :: "call \<Rightarrow> bool" where
  "activates (Event (CANVAS_ACTIVATED c)) = True"
| "activates c = False"

definition inactive :: "state \<Rightarrow> bool" where
  "inactive s = (state.canvas s = None \<and> currentGeoMap s = None)"

text \<open>
  For the life of a record: the call that is the reset event; the number of evictor runs
  a call can cause (one for the evictor itself, those the memory module asks for during
  the allocations of a createGeometry call); and a run of calls that leaves the record at
  \<open>(cid, ty)\<close> alone: no call is the reset event, and the evictions each call causes in its
  state do not take the record.
\<close>

fun resets :: "call \<Rightarrow> bool" where
  "resets (Event RESET) = True"
| "resets c = False"

fun evictionsOf :: "call \<Rightarrow> nat" where
  "evictionsOf Evict = 1"
| "evictionsOf (CreateGeometry allocate type0 d) = requested allocate"
| "evictionsOf c = 0"

fun undisturbed :: "keygen \<Rightarrow> call list \<Rightarrow> state \<Rightarrow> string \<Rightarrow> string \<Rightarrow> bool" where
  "undisturbed k [] s cid ty = True"
| "undisturbed k (c # cs) s cid ty =
     (\<not> resets c \<and> slot (evictions (evictionsOf c) s) cid ty \<noteq> None
      \<and> undisturbed k cs (step k c s) cid ty)"

text \<open>destroyGeometry called on each record of a list, in order.\<close>

fun destroyEach :: "geometry list \<Rightarrow> state \<Rightarrow> state" where
  "destroyEach [] s = s"
| "destroyEach (geo # geos) s = destroyEach geos (destroyGeometry geo s)"

section \<open>Example scenes\<close>

text \<open>
  Concrete inputs for the closed theorems below: two canvases, a triangle without normals
  and texture coordinates, a memory module that grants every allocation at once, a key
  generator for an empty cache, and the record A that createGeometry stores for the
  triangle on the canvas S1 at tick 0.
\<close>

definition S1 :: canvas where
  "S1 = \<lparr>canvasId = ''S1''\<rparr>"

definition S2 :: canvas where
  "S2 = \<lparr>canvasId = ''S2''\<rparr>"

definition triangle :: data where
  "triangle =
     \<lparr>primitive = Some ''triangles'', positions = [0, 0, 0, 1, 0, 0, 0, 1, 0],
      normals = None, uv = None, uv2 = None, indices = [0, 1, 2]\<rparr>"

definition plain :: memoryModule where
  "plain = (\<lambda>description. (0, True))"

definition key0 :: keygen where
  "key0 = (\<lambda>geoMap prefix. prefix @ ''0'')"

definition sceneA :: state where
  "sceneA =
     run key0 [Event (CANVAS_ACTIVATED S1), CreateGeometry plain (Some ''A'') triangle]
       (init 0 [''S1''])"

definition geoA :: geometry where
  "geoA =
     \<lparr>fixed = True, primitive = TRIANGLES, type = ''A'', lastUsed = 0, canvas = S1,
      vertexBuf = \<lparr>handle = 0, bufType = ARRAY_BUFFER, numItems = 9, itemSize = 3\<rparr>,
      normalBuf = None,
      indexBuf = \<lparr>handle = 1, bufType = ELEMENT_ARRAY_BUFFER, numItems = 3, itemSize = 1\<rparr>,
      uvBuf = None, uvBuf2 = None\<rparr>"

text \<open>The same triangle with normals, stored as N after A.\<close>

definition triangleN :: data where
  "triangleN = triangle\<lparr>normals := Some [0, 0, 1, 0, 0, 1, 0, 0, 1]\<rparr>"

definition sceneN :: state where
  "sceneN = run key0 [CreateGeometry plain (Some ''N'') triangleN] sceneA"

definition geoN :: geometry where
  "geoN =
     \<lparr>fixed = True, primitive = TRIANGLES, type = ''N'', lastUsed = 0, canvas = S1,
      vertexBuf = \<lparr>handle = 2, bufType = ARRAY_BUFFER, numItems = 9, itemSize = 3\<rparr>,
      normalBuf = Some \<lparr>handle = 3, bufType = ARRAY_BUFFER, numItems = 9, itemSize = 3\<rparr>,
      indexBuf = \<lparr>handle = 4, bufType = ELEMENT_ARRAY_BUFFER, numItems = 3, itemSize = 1\<rparr>,
      uvBuf = None, uvBuf2 = None\<rparr>"

text \<open>
  The scenario of the spec: C on S2 at tick 0, A on S1 at tick 1, B on S1 at tick 2, the
  clock then at 3.
\<close>

definition sceneABC :: state where
  "sceneABC =
     run key0
       [Event (CANVAS_ACTIVATED S2), CreateGeometry plain (Some ''C'') triangle,
        Event (TIME_UPDATED 1), Event (CANVAS_ACTIVATED S1),
        CreateGeometry plain (Some ''A'') triangle,
        Event (TIME_UPDATED 2), CreateGeometry plain (Some ''B'') triangle,
        Event (TIME_UPDATED 3)]
       (init 0 [''S1'', ''S2''])"

text \<open>
  An old record on the active canvas (created at tick 0, the clock now at 5); a memory
  module that runs the evictor once before every outcome and grants only the vertex
  buffer; one that grants nothing; and data with a primitive that is not one of the seven.
\<close>

definition sceneOld :: state where
  "sceneOld =
     run key0 [Event (CANVAS_ACTIVATED S1), CreateGeometry plain (Some ''A'') triangle,
               Event (TIME_UPDATED 5)]
       (init 0 [''S1''])"

definition pressed :: memoryModule where
  "pressed = (\<lambda>description. (1, description = ''geometry vertex buffer''))"



text \<open>Two records on the active canvas S1.\<close>

definition sceneAB :: state where
  "sceneAB =
     run key0
       [Event (CANVAS_ACTIVATED S1), CreateGeometry plain (Some ''A'') triangle,
        CreateGeometry plain (Some ''B'') triangle, Event (TIME_UPDATED 7)]
       (init 0 [''S1''])"

text \<open>
  The old scene after a second record B has been created at the current tick 5, and the
  record that the call stored.
\<close>

definition sceneB :: state where
  "sceneB = snd (createGeometry key0 plain (Some ''B'') triangle sceneOld)"

definition geoB :: geometry where
  "geoB =
     \<lparr>fixed = True, primitive = TRIANGLES, type = ''B'', lastUsed = 5, canvas = S1,
      vertexBuf = \<lparr>handle = 2, bufType = ARRAY_BUFFER, numItems = 9, itemSize = 3\<rparr>,
      normalBuf = None,
      indexBuf = \<lparr>handle = 3, bufType = ELEMENT_ARRAY_BUFFER, numItems = 3, itemSize = 1\<rparr>,
      uvBuf = None, uvBuf2 = None\<rparr>"

text \<open>
  What happens after B was created: the clock moves, the evictor runs (it takes A), B is
  drawn, the shader deactivates, another record is created under memory pressure, the
  surface is deactivated and activated again.
\<close>

definition afterB :: "call list" where
  "afterB =
     [Event (TIME_UPDATED 9), Evict, DrawGeometry False ''B'', Event SHADER_DEACTIVATED,
      CreateGeometry pressed (Some ''D'') triangle, Event CANVAS_DEACTIVATED,
      Event (CANVAS_ACTIVATED S1)]"

text \<open>
  The scene with A and B after one run of the evictor, which leaves \<^verbatim>\<open>null\<close> in the slot
  of A; and the same scene after B has then been drawn, so that B is the bound type.
\<close>

definition sceneEvicted :: state where
  "sceneEvicted = run key0 [Evict] sceneAB"

definition sceneBound :: state where
  "sceneBound = run key0 [Evict, DrawGeometry False ''B''] sceneAB"

text \<open>
  A page with both canvases, S1 active, after the triangle has been stored as A: the
  state that createGeometry leaves.
\<close>

definition sceneTwo :: state where
  "sceneTwo = snd (onEvent (CANVAS_ACTIVATED S1) (init 0 [''S1'', ''S2'']))"

definition sceneTwoA :: state where
  "sceneTwoA = snd (createGeometry key0 plain (Some ''A'') triangle sceneTwo)"

section \<open>What destroyGeometry does\<close>

lemma destroyGeometry_time [simp]: "time (destroyGeometry geo s) = time s"
  by (simp add: destroyGeometry_def emit_def Let_def)

lemma destroyGeometry_canvas [simp]: "state.canvas (destroyGeometry geo s) = state.canvas s"
  by (simp add: destroyGeometry_def emit_def Let_def)

lemma destroyGeometry_currentGeoMap [simp]:
  "currentGeoMap (destroyGeometry geo s) = currentGeoMap s"
  by (simp add: destroyGeometry_def emit_def Let_def)

lemma destroyGeometry_document [simp]: "document (destroyGeometry geo s) = document s"
  by (simp add: destroyGeometry_def emit_def Let_def)

lemma destroyGeometry_allocated [simp]: "allocated (destroyGeometry geo s) = allocated s"
  by (simp add: destroyGeometry_def emit_def Let_def)

lemma destroyGeometry_geoMaps:
  "geoMaps (destroyGeometry geo s) =
     AList.map_entry (canvasId (geometry.canvas geo)) (AList.update (type geo) None) (geoMaps s)"
  by (simp add: destroyGeometry_def emit_def Let_def)

lemma destroyGeometry_bound:
  "currentBoundGeoType (destroyGeometry geo s) =
     (if currentBoundGeoType s = Some (type geo) then None else currentBoundGeoType s)"
  by (simp add: destroyGeometry_def emit_def Let_def)

lemma destroyGeometry_effects:
  "effects (destroyGeometry geo s) =
     effects s @ (if canvasId (geometry.canvas geo) \<in> set (document s)
                  then destroyBuffers geo else [])"
  by (simp add: destroyGeometry_def emit_def Let_def)

text \<open>
  C1. The claim: for a record whose surface is still in the page, destroyGeometry destroys
  each buffer the record has (vertex, normal, index, uv, uv2). The code guards the index
  buffer with the test of the normal buffer (line 120), so a record without normals keeps
  its index buffer: for the triangle \<open>geoA\<close> that createGeometry stored on the live canvas S1,
  destroyGeometry destroys the vertex buffer and nothing else, while for the record
  \<open>geoN\<close> of the same triangle with normals it destroys vertex, normal and index buffer.
  In both cases the slot is emptied.
\<close>

theorem destroyGeometry_keeps_indexBuf:
  "slot sceneA ''S1'' ''A'' = Some geoA
   \<and> canvasId (geometry.canvas geoA) \<in> set (document sceneA)
   \<and> effects (destroyGeometry geoA sceneA) = effects sceneA @ [Destroy (vertexBuf geoA)]
   \<and> Destroy (indexBuf geoA) \<notin> set (effects (destroyGeometry geoA sceneA))
   \<and> slot (destroyGeometry geoA sceneA) ''S1'' ''A'' = None
   \<and> slot sceneN ''S1'' ''N'' = Some geoN
   \<and> effects (destroyGeometry geoN sceneN) =
        effects sceneN @ [Destroy (vertexBuf geoN), Destroy (the (normalBuf geoN)),
                          Destroy (indexBuf geoN)]
   \<and> slot (destroyGeometry geoN sceneN) ''S1'' ''N'' = None"
  by code_simp

section \<open>The evictor\<close>

lemma set_records: "set (records s) = {geo. Some geo \<in> set (slots s)}"
  by (force simp: records_def List.map_filter_def image_iff)

lemma scanGeoMap_foldl: "scanGeoMap doc geoMap acc = foldl (visit doc) acc (map snd geoMap)"
proof (induction geoMap arbitrary: acc)
  case Nil
  show ?case by simp
next
  case (Cons p geoMap)
  then show ?case by (cases p) simp
qed

lemma scanGeoMaps_foldl:
  "scanGeoMaps doc gms acc = foldl (visit doc) acc (concat (map (\<lambda>(cid, geoMap). map snd geoMap) gms))"
proof (induction gms arbitrary: acc)
  case Nil
  show ?case by simp
next
  case (Cons p gms)
  then show ?case by (cases p) (simp add: scanGeoMap_foldl)
qed

lemma evictee_foldl: "evictee s = snd (foldl (visit (document s)) (time s, None) (slots s))"
  by (simp add: evictee_def scanGeoMaps_foldl slots_def)

lemma foldl_visit_le: "fst (foldl (visit doc) acc sls) \<le> fst acc"
proof (induction sls arbitrary: acc)
  case Nil
  show ?case by simp
next
  case (Cons sl sls)
  have "fst (visit doc acc sl) \<le> fst acc"
    by (simp add: visit_def split: option.splits)
  with Cons[of "visit doc acc sl"] show ?case by simp
qed

lemma foldl_visit_min:
  "Some geo \<in> set sls \<Longrightarrow> canvasId (geometry.canvas geo) \<in> set doc
   \<Longrightarrow> fst (foldl (visit doc) acc sls) \<le> lastUsed geo"
proof (induction sls arbitrary: acc)
  case Nil
  then show ?case by simp
next
  case (Cons sl sls)
  show ?case
  proof (cases "sl = Some geo")
    case True
    have "fst (visit doc acc sl) \<le> lastUsed geo"
      using True Cons.prems(2) by (simp add: visit_def)
    moreover have "fst (foldl (visit doc) (visit doc acc sl) sls) \<le> fst (visit doc acc sl)"
      by (rule foldl_visit_le)
    ultimately show ?thesis by simp
  next
    case False
    with Cons.prems have "Some geo \<in> set sls" by simp
    from Cons.IH[OF this Cons.prems(2)] show ?thesis by simp
  qed
qed

lemma foldl_visit_result:
  "foldl (visit doc) acc sls = acc
   \<or> (\<exists>geo. foldl (visit doc) acc sls = (lastUsed geo, Some geo) \<and> Some geo \<in> set sls
         \<and> canvasId (geometry.canvas geo) \<in> set doc \<and> lastUsed geo < fst acc)"
proof (induction sls arbitrary: acc)
  case Nil
  show ?case by simp
next
  case (Cons sl sls)
  have v: "visit doc acc sl = acc
     \<or> (\<exists>geo. sl = Some geo \<and> visit doc acc sl = (lastUsed geo, Some geo)
          \<and> canvasId (geometry.canvas geo) \<in> set doc \<and> lastUsed geo < fst acc)"
    by (auto simp: visit_def split: option.splits)
  from Cons.IH[of "visit doc acc sl"] v show ?case
    by (elim disjE exE conjE) (simp, force, force, force)
qed

text \<open>
  C2, as amended. The scan starts with \<^verbatim>\<open>earliest = time\<close> and takes a record only when
  its \<^verbatim>\<open>lastUsed\<close> is strictly below \<^verbatim>\<open>earliest\<close> (line 150). So the callback chooses among
  the records whose canvas is in the page and whose \<^verbatim>\<open>lastUsed\<close> is below the clock: when
  there is one, it hands one with the least \<^verbatim>\<open>lastUsed\<close> to destroyGeometry and returns true;
  when there is none, it changes nothing and returns false.
\<close>

theorem evictor_least_recently_used:
  "((\<forall>geo \<in> set (records s). \<not> evictable s geo) \<longrightarrow> evictor s = (False, s))
   \<and> ((\<exists>geo \<in> set (records s). evictable s geo) \<longrightarrow>
        (\<exists>e \<in> set (records s). evictable s e
           \<and> (\<forall>geo \<in> set (records s). evictable s geo \<longrightarrow> lastUsed e \<le> lastUsed geo)
           \<and> evictor s = (True, destroyGeometry e s)))"
proof -
  let ?r = "foldl (visit (document s)) (time s, None) (slots s)"
  have ev: "evictee s = snd ?r" by (rule evictee_foldl)
  have min: "fst ?r \<le> lastUsed geo"
    if "geo \<in> set (records s)" "canvasId (geometry.canvas geo) \<in> set (document s)" for geo
    using that foldl_visit_min[of geo "slots s" "document s" "(time s, None)"]
    by (simp add: set_records)
  from foldl_visit_result[of "document s" "(time s, None)" "slots s"]
  show ?thesis
  proof (elim disjE exE conjE)
    assume r: "?r = (time s, None)"
    have none: "\<not> evictable s geo" if "geo \<in> set (records s)" for geo
      using min[OF that] r by (auto simp: evictable_def)
    have "evictor s = (False, s)" using ev r by (simp add: evictor_def)
    with none show ?thesis by blast
  next
    fix e
    assume r: "?r = (lastUsed e, Some e)" and e: "Some e \<in> set (slots s)"
      and l: "canvasId (geometry.canvas e) \<in> set (document s)" and lt: "lastUsed e < fst (time s, None)"
    have 1: "e \<in> set (records s)" using e by (simp add: set_records)
    have 2: "evictable s e" using l lt by (simp add: evictable_def)
    have 3: "lastUsed e \<le> lastUsed geo" if "geo \<in> set (records s)" "evictable s geo" for geo
      using min[of geo] that r by (simp add: evictable_def)
    have 4: "evictor s = (True, destroyGeometry e s)" using ev r by (simp add: evictor_def)
    from 1 2 3 4 show ?thesis by blast
  qed
qed

text \<open>The theorem in the scene of three records last used at ticks 0, 1 and 2.\<close>

theorem evictor_least_recently_used_witness:
  "(\<exists>geo \<in> set (records sceneABC). evictable sceneABC geo)
   \<and> (\<exists>e \<in> set (records sceneABC). evictable sceneABC e
         \<and> (\<forall>geo \<in> set (records sceneABC). evictable sceneABC geo \<longrightarrow> lastUsed e \<le> lastUsed geo)
         \<and> evictor sceneABC = (True, destroyGeometry e sceneABC))
   \<and> fst (evictor sceneABC)
   \<and> slot sceneABC ''S2'' ''C'' \<noteq> None
   \<and> slot (snd (evictor sceneABC)) ''S2'' ''C'' = None"
proof -
  have h: "\<exists>geo \<in> set (records sceneABC). evictable sceneABC geo"
    by code_simp
  have c: "fst (evictor sceneABC) \<and> slot sceneABC ''S2'' ''C'' \<noteq> None
     \<and> slot (snd (evictor sceneABC)) ''S2'' ''C'' = None"
    by code_simp
  from h c evictor_least_recently_used[of sceneABC] show ?thesis by blast
qed

text \<open>
  C2, as stated, fails: the record \<open>geoA\<close> exists in \<open>sceneA\<close> and its canvas is in the page,
  but it was created at the current tick, and the callback destroys nothing and returns
  false.
\<close>

theorem evictor_spares_current_tick:
  "geoA \<in> set (records sceneA)
   \<and> canvasId (geometry.canvas geoA) \<in> set (document sceneA)
   \<and> lastUsed geoA = time sceneA
   \<and> evictor sceneA = (False, sceneA)"
  by code_simp

section \<open>Allocation and createGeometry\<close>

lemma created_simps [simp]:
  "created [] = []"
  "created (Create b # es) = b # created es"
  "created (Destroy b # es) = created es"
  "created (Bind b # es) = created es"
  "created (DisableVertexAttribArray i # es) = created es"
  "created (DrawElements p n # es) = created es"
  "created (Flush # es) = created es"
  "created (FireEvent ev # es) = created es"
  "created (es @ es') = created es @ created es'"
  by (simp_all add: created_def)

lemma created_map_Destroy [simp]: "created (map Destroy bs) = []"
  by (induction bs) simp_all

lemma created_destroyBuffers [simp]: "created (destroyBuffers geo) = []"
  by (simp add: destroyBuffers_def)

lemma evictor_frame [simp]:
  "time (snd (evictor s)) = time s"
  "state.canvas (snd (evictor s)) = state.canvas s"
  "currentGeoMap (snd (evictor s)) = currentGeoMap s"
  "document (snd (evictor s)) = document s"
  "allocated (snd (evictor s)) = allocated s"
  by (simp_all add: evictor_def split: option.splits)

lemma evictions_frame [simp]:
  "time (evictions n s) = time s"
  "state.canvas (evictions n s) = state.canvas s"
  "currentGeoMap (evictions n s) = currentGeoMap s"
  "document (evictions n s) = document s"
  "allocated (evictions n s) = allocated s"
  by (induction n arbitrary: s) simp_all

lemma evictee_core: "core s = core t \<Longrightarrow> evictee s = evictee t"
  by (simp add: core_def evictee_def)

lemma destroyGeometry_core: "core s = core t \<Longrightarrow> core (destroyGeometry geo s) = core (destroyGeometry geo t)"
  by (simp add: core_def destroyGeometry_geoMaps destroyGeometry_bound)

lemma evictor_core: "core s = core t \<Longrightarrow> core (snd (evictor s)) = core (snd (evictor t))"
  using evictee_core[of s t] destroyGeometry_core[of s t]
  by (simp add: evictor_def split: option.splits)

lemma evictions_core: "core s = core t \<Longrightarrow> core (evictions n s) = core (evictions n t)"
proof (induction n arbitrary: s t)
  case 0
  then show ?case by simp
next
  case (Suc n)
  have "core (snd (evictor s)) = core (snd (evictor t))"
    using Suc.prems by (rule evictor_core)
  then have "core (evictions n (snd (evictor s))) = core (evictions n (snd (evictor t)))"
    by (rule Suc.IH)
  then show ?case by simp
qed

lemma evictions_add: "evictions m (evictions n s) = evictions (n + m) s"
  by (induction n arbitrary: s) simp_all

lemma evictor_effects: "\<exists>es. effects (snd (evictor s)) = effects s @ es \<and> created es = []"
  by (simp add: evictor_def destroyGeometry_effects split: option.splits)

lemma evictions_effects: "\<exists>es. effects (evictions n s) = effects s @ es \<and> created es = []"
proof (induction n arbitrary: s)
  case 0
  show ?case by simp
next
  case (Suc n)
  obtain es1 where 1: "effects (snd (evictor s)) = effects s @ es1" "created es1 = []"
    using evictor_effects by blast
  obtain es2 where 2: "effects (evictions n (snd (evictor s))) = effects (snd (evictor s)) @ es2"
    "created es2 = []" using Suc by blast
  have "effects (evictions (Suc n) s) = effects s @ (es1 @ es2)" using 1 2 by simp
  moreover have "created (es1 @ es2) = []" using 1 2 by simp
  ultimately show ?case by blast
qed

lemma during_refl: "during s 0 [] s"
proof -
  have "\<exists>n\<le>0. core s = core (evictions n s)" by simp
  moreover have "effects s = effects s @ [] \<and> created [] = []" by simp
  ultimately show ?thesis unfolding during_def by blast
qed

lemma during_mono:
  assumes "during s m bufs s1" and "m \<le> m'"
  shows "during s m' bufs s1"
proof -
  from assms(1) obtain n where "n \<le> m" "core s1 = core (evictions n s)"
    unfolding during_def by blast
  with assms(2) have "\<exists>n\<le>m'. core s1 = core (evictions n s)" by (meson le_trans)
  with assms(1) show ?thesis unfolding during_def by blast
qed

lemma during_evictions:
  assumes "during s m bufs s1"
  shows "during s (m + j) bufs (evictions j s1)"
proof -
  from assms(1) obtain n es where n: "core s1 = core (evictions n s)" "n \<le> m"
    and es: "effects s1 = effects s @ es" "created es = bufs"
    and fr: "state.canvas s1 = state.canvas s" "currentGeoMap s1 = currentGeoMap s"
    unfolding during_def by blast
  have "core (evictions j s1) = core (evictions j (evictions n s))"
    using n(1) by (rule evictions_core)
  then have c: "core (evictions j s1) = core (evictions (n + j) s)" by (simp add: evictions_add)
  have z: "n + j \<le> m + j" using n(2) by simp
  obtain es' where es': "effects (evictions j s1) = effects s1 @ es'" "created es' = []"
    using evictions_effects by blast
  have e: "effects (evictions j s1) = effects s @ (es @ es')" "created (es @ es') = bufs"
    using es es' by simp_all
  have f: "state.canvas (evictions j s1) = state.canvas s"
    "currentGeoMap (evictions j s1) = currentGeoMap s" using fr by simp_all
  show ?thesis unfolding during_def using c z e f by blast
qed

lemma during_emit:
  assumes "during s m bufs s1"
  shows "during s m (bufs @ created es) (emit es s1)"
proof -
  from assms obtain n es0 where n: "core s1 = core (evictions n s)" "n \<le> m"
    and es: "effects s1 = effects s @ es0" "created es0 = bufs"
    and fr: "state.canvas s1 = state.canvas s" "currentGeoMap s1 = currentGeoMap s"
    unfolding during_def by blast
  have c: "core (emit es s1) = core (evictions n s)" using n(1) by (simp add: core_def emit_def)
  have e: "effects (emit es s1) = effects s @ (es0 @ es)" "created (es0 @ es) = bufs @ created es"
    using es by (simp_all add: emit_def)
  have f: "state.canvas (emit es s1) = state.canvas s" "currentGeoMap (emit es s1) = currentGeoMap s"
    using fr by (simp_all add: emit_def)
  show ?thesis unfolding during_def using c n(2) e f by blast
qed

lemma during_allocated:
  assumes "during s m bufs s1"
  shows "during s m bufs (s1\<lparr>allocated := n\<rparr>)"
  using assms unfolding during_def core_def by simp

lemma createArrayBuffer_during:
  assumes "during s m bufs s1" and "createArrayBuffer a description t n i s1 = (r, s2)"
  shows "(case r of
            Inl e \<Rightarrow> e = OutOfMemoryException \<and> \<not> snd (a description)
                     \<and> during s (m + fst (a description)) bufs s2
          | Inr buf \<Rightarrow> snd (a description) \<and> during s (m + fst (a description)) (bufs @ [buf]) s2)"
proof -
  let ?s = "evictions (fst (a description)) s1"
  let ?buf = "\<lparr>handle = allocated ?s, bufType = t, numItems = n, itemSize = i\<rparr>"
  have d: "during s (m + fst (a description)) bufs ?s"
    using assms(1) by (rule during_evictions)
  show ?thesis
  proof (cases "snd (a description)")
    case True
    have "during s (m + fst (a description)) (bufs @ created [Create ?buf])
            (emit [Create ?buf] (?s\<lparr>allocated := Suc (allocated ?s)\<rparr>))"
      by (rule during_emit[OF during_allocated[OF d]])
    moreover have "r = Inr ?buf" "s2 = emit [Create ?buf] (?s\<lparr>allocated := Suc (allocated ?s)\<rparr>)"
      using assms(2) True by (simp_all add: createArrayBuffer_def Let_def)
    ultimately show ?thesis using True by simp
  next
    case False
    have "r = Inl OutOfMemoryException" "s2 = ?s"
      using assms(2) False by (simp_all add: createArrayBuffer_def Let_def)
    then show ?thesis using False d by simp
  qed
qed

lemma held_simps [simp]: "held None = []" "held (Some b) = [b]"
  by (simp_all add: held_def)

lemma createOptionalBuffer_during:
  assumes "during s m bufs s1" and "createOptionalBuffer a description vals i s1 = (r, s2)"
  shows "(case r of
            Inl e \<Rightarrow> e = OutOfMemoryException \<and> \<not> snd (a description)
                     \<and> during s (m + fst (a description)) bufs s2
          | Inr buf \<Rightarrow> during s (m + fst (a description)) (bufs @ held buf) s2)"
proof (cases "\<exists>vs. vals = Some vs \<and> length vs > 0")
  case False
  then have "r = Inr None" "s2 = s1"
    using assms(2) by (auto simp: createOptionalBuffer_def split: option.splits if_splits)
  then show ?thesis using during_mono[OF assms(1), of "m + fst (a description)"] by simp
next
  case True
  then obtain vs where vs: "vals = Some vs" "length vs > 0" by blast
  obtain r0 s0 where c: "createArrayBuffer a description ARRAY_BUFFER (length vs) i s1 = (r0, s0)"
    by (cases "createArrayBuffer a description ARRAY_BUFFER (length vs) i s1")
  note d = createArrayBuffer_during[OF assms(1) c]
  show ?thesis
  proof (cases r0)
    case (Inl e)
    then have "r = Inl e" "s2 = s0" using assms(2) vs c by (simp_all add: createOptionalBuffer_def)
    then show ?thesis using d Inl by simp
  next
    case (Inr buf)
    then have "r = Inr (Some buf)" "s2 = s0" using assms(2) vs c by (simp_all add: createOptionalBuffer_def)
    then show ?thesis using d Inr by simp
  qed
qed

lemma emit_Nil [simp]: "emit [] s = s"
  by (simp add: emit_def)

lemma createGeometry_cases [consumes 1, case_names fail ok]:
  assumes run: "createGeometry k a type0 d s = (r, s')"
  obtains (fail) e bufs s1 where
      "r = Inl e" "during s (requested a) bufs s1" "s' = emit (map Destroy bufs) s1"
      "e = OutOfMemoryException \<Longrightarrow> snd (a ''geometry vertex buffer'') \<Longrightarrow> bufs \<noteq> []"
      "e = OutOfMemoryException \<Longrightarrow> \<exists>description. \<not> snd (a description)"
      "e = TypeError \<Longrightarrow> state.canvas s = None \<or> currentCache s = None"
      "e = NodeConfigExpectedException \<Longrightarrow> \<not> truthy (data.primitive d)"
      "e = InvalidGeometryConfigException \<Longrightarrow>
         truthy (data.primitive d) \<and> getPrimitiveType (the (data.primitive d)) = Inl e"
      "e \<noteq> NoCanvasActiveException \<and> e \<noteq> Undefined"
  | (ok) ty c cid geo s1 where
      "r = Inr ty" "state.canvas s = Some c" "currentGeoMap s = Some cid"
      "ty = (if truthy type0 then the type0 else k (the (currentCache s)) ''type'')"
      "truthy (data.primitive d)"
      "getPrimitiveType (the (data.primitive d)) = Inr (geometry.primitive geo)"
      "fixed geo" "type geo = ty" "lastUsed geo = time s" "geometry.canvas geo = c"
      "during s (requested a) (vertexBuf geo # held (normalBuf geo) @ held (uvBuf geo)
                   @ held (uvBuf2 geo) @ [indexBuf geo]) s1"
      "s' = s1\<lparr>geoMaps := AList.map_entry cid (AList.update ty (Some geo)) (geoMaps s1)\<rparr>"
proof -
  let ?key = "if truthy type0 then Inr (the type0)
              else (case currentCache s of None \<Rightarrow> Inl TypeError
                    | Some geoMap \<Rightarrow> Inr (k geoMap ''type''))"
  note defs = createGeometry_def catch_def
  show thesis
  proof (cases ?key)
    case (Inl e)
    then have "r = Inl TypeError" "s' = s" "currentCache s = None"
      using run by (auto simp: createGeometry_def split: if_splits option.splits)
    then show thesis using fail[of TypeError "[]" s] during_mono[OF during_refl, of "requested a" s] by simp
  next
    case key: (Inr ty)
    then have ty: "ty = (if truthy type0 then the type0 else k (the (currentCache s)) ''type'')"
      by (auto split: if_splits option.splits)
    show thesis
    proof (cases "truthy (data.primitive d)")
      case False
      then have "r = Inl NodeConfigExpectedException" "s' = s"
        using run key by (simp_all add: createGeometry_def)
      then show thesis using fail[of NodeConfigExpectedException "[]" s] during_mono[OF during_refl, of "requested a" s] False by simp
    next
      case prim: True
      show thesis
      proof (cases "state.canvas s")
        case None
        then have "r = Inl TypeError" "s' = s"
          using run key prim by (simp_all add: createGeometry_def)
        then show thesis using fail[of TypeError "[]" s] during_mono[OF during_refl, of "requested a" s] None by simp
      next
        case c: (Some c)
        obtain r1 s1 where a1: "createArrayBuffer a ''geometry vertex buffer'' ARRAY_BUFFER
            (length (positions d)) 3 s = (r1, s1)"
          by (cases "createArrayBuffer a ''geometry vertex buffer'' ARRAY_BUFFER (length (positions d)) 3 s")
        note d1 = createArrayBuffer_during[OF during_refl a1]
        show thesis
        proof (cases r1)
          case (Inl e)
          then have "r = Inl e" "s' = emit (map Destroy []) s1"
            using run key prim c a1 by (simp_all add: defs)
          moreover have "during s (requested a) [] s1"
            using d1 Inl by (auto intro: during_mono simp: requested_def)
          ultimately show thesis using fail[of e "[]" s1] d1 Inl by auto
        next
          case v: (Inr vb)
          have dv: "during s (0 + fst (a ''geometry vertex buffer'')) [vb] s1" and av: "snd (a ''geometry vertex buffer'')"
            using d1 v by simp_all
          obtain r2 s2 where a2: "createOptionalBuffer a ''geometry normal buffer'' (normals d) 3 s1 = (r2, s2)"
            by (cases "createOptionalBuffer a ''geometry normal buffer'' (normals d) 3 s1")
          note d2 = createOptionalBuffer_during[OF dv a2]
          show thesis
          proof (cases r2)
            case (Inl e)
            then have "r = Inl e" "s' = emit (map Destroy [vb]) s2"
              using run key prim c a1 v a2 by (simp_all add: defs)
            moreover have "during s (requested a) [vb] s2"
              using d2 Inl by (auto intro: during_mono simp: requested_def)
            ultimately show thesis using fail[of e "[vb]" s2] d2 Inl av by auto
          next
            case n: (Inr nb)
            let ?b2 = "[vb] @ held nb"
            have dn: "during s (0 + fst (a ''geometry vertex buffer'') + fst (a ''geometry normal buffer'')) ?b2 s2"
              using d2 n by simp
            obtain r3 s3 where a3: "createOptionalBuffer a ''geometry UV buffer'' (uv d) 2 s2 = (r3, s3)"
              by (cases "createOptionalBuffer a ''geometry UV buffer'' (uv d) 2 s2")
            note d3 = createOptionalBuffer_during[OF dn a3]
            show thesis
            proof (cases r3)
              case (Inl e)
              then have "r = Inl e" "s' = emit (map Destroy ?b2) s3"
                using run key prim c a1 v a2 n a3 by (simp_all add: defs)
              moreover have "during s (requested a) ?b2 s3"
                using d3 Inl by (auto intro: during_mono simp: requested_def)
              ultimately show thesis using fail[of e ?b2 s3] d3 Inl av by auto
            next
              case u: (Inr ub)
              let ?b3 = "?b2 @ held ub"
              have du: "during s (0 + fst (a ''geometry vertex buffer'') + fst (a ''geometry normal buffer'')
                  + fst (a ''geometry UV buffer'')) ?b3 s3"
                using d3 u by simp
              obtain r4 s4 where a4: "createOptionalBuffer a ''geometry UV2 buffer'' (uv2 d) 2 s3 = (r4, s4)"
                by (cases "createOptionalBuffer a ''geometry UV2 buffer'' (uv2 d) 2 s3")
              note d4 = createOptionalBuffer_during[OF du a4]
              show thesis
              proof (cases r4)
                case (Inl e)
                then have "r = Inl e" "s' = emit (map Destroy ?b3) s4"
                  using run key prim c a1 v a2 n a3 u a4 by (simp_all add: defs)
                moreover have "during s (requested a) ?b3 s4"
                  using d4 Inl by (auto intro: during_mono simp: requested_def)
                ultimately show thesis using fail[of e ?b3 s4] d4 Inl av by auto
              next
                case u2: (Inr ub2)
                let ?b4 = "?b3 @ held ub2"
                have du2: "during s (0 + fst (a ''geometry vertex buffer'') + fst (a ''geometry normal buffer'')
                    + fst (a ''geometry UV buffer'') + fst (a ''geometry UV2 buffer'')) ?b4 s4"
                  using d4 u2 by simp
                obtain r5 s5 where a5: "createArrayBuffer a ''geometry index buffer'' ELEMENT_ARRAY_BUFFER
                    (length (indices d)) 1 s4 = (r5, s5)"
                  by (cases "createArrayBuffer a ''geometry index buffer'' ELEMENT_ARRAY_BUFFER (length (indices d)) 1 s4")
                note d5 = createArrayBuffer_during[OF du2 a5]
                show thesis
                proof (cases r5)
                  case (Inl e)
                  then have "r = Inl e" "s' = emit (map Destroy ?b4) s5"
                    using run key prim c a1 v a2 n a3 u a4 u2 a5 by (simp_all add: defs)
                  moreover have "during s (requested a) ?b4 s5"
                    using d5 Inl by (auto intro: during_mono simp: requested_def)
                  ultimately show thesis using fail[of e ?b4 s5] d5 Inl av by auto
                next
                  case i: (Inr ib)
                  let ?b5 = "?b4 @ [ib]"
                  have di: "during s (requested a) ?b5 s5" using d5 i by (simp add: requested_def)
                  have fr: "currentGeoMap s5 = currentGeoMap s" "time s5 = time s"
                    using di by (auto simp: during_def core_def)
                  show thesis
                  proof (cases "getPrimitiveType (the (data.primitive d))")
                    case (Inl e)
                    then have "r = Inl e" "s' = emit (map Destroy ?b5) s5"
                      using run key prim c a1 v a2 n a3 u a4 u2 a5 i by (simp_all add: defs)
                    moreover have "e = InvalidGeometryConfigException"
                      using Inl by (simp add: getPrimitiveType_def split: if_splits)
                    ultimately show thesis using fail[of e ?b5 s5] di Inl prim by auto
                  next
                    case p: (Inr pr)
                    show thesis
                    proof (cases "currentGeoMap s")
                      case None
                      then have "r = Inl TypeError" "s' = emit (map Destroy ?b5) s5"
                        using run key prim c a1 v a2 n a3 u a4 u2 a5 i p fr by (simp_all add: defs)
                      moreover have "currentCache s = None" using None by (simp add: currentCache_def)
                      ultimately show thesis using fail[of TypeError ?b5 s5] di by auto
                    next
                      case (Some cid)
                      let ?geo = "\<lparr>fixed = True, primitive = pr, type = ty, lastUsed = time s,
                          canvas = c, vertexBuf = vb, normalBuf = nb, indexBuf = ib, uvBuf = ub,
                          uvBuf2 = ub2\<rparr>"
                      have "r = Inr ty"
                        "s' = s5\<lparr>geoMaps := AList.map_entry cid (AList.update ty (Some ?geo)) (geoMaps s5)\<rparr>"
                        using run key prim c a1 v a2 n a3 u a4 u2 a5 i p fr Some by (simp_all add: defs)
                      moreover have "during s (requested a) (vertexBuf ?geo # held (normalBuf ?geo)
                            @ held (uvBuf ?geo) @ held (uvBuf2 ?geo) @ [indexBuf ?geo]) s5"
                        using di by simp
                      ultimately show thesis
                        using ok[of ty c cid ?geo s5] c Some ty prim p by simp
                    qed
                  qed
                qed
              qed
            qed
          qed
        qed
      qed
    qed
  qed
qed

section \<open>Failed calls of createGeometry\<close>

lemma slot_geoMaps: "geoMaps s = geoMaps t \<Longrightarrow> slot s cid ty = slot t cid ty"
  by (simp add: slot_def)

lemma slot_destroyGeometry:
  "slot (destroyGeometry geo s) cid ty =
     (if cid = canvasId (geometry.canvas geo) \<and> ty = type geo then None else slot s cid ty)"
  by (simp add: slot_def destroyGeometry_geoMaps map_of_map_entry update_conv'
      split: option.splits)

lemma slot_evictor: "slot (snd (evictor s)) cid ty = slot s cid ty \<or> slot (snd (evictor s)) cid ty = None"
  by (simp add: evictor_def slot_destroyGeometry split: option.splits)

lemma slot_evictions:
  "slot (evictions n s) cid ty = slot s cid ty \<or> slot (evictions n s) cid ty = None"
proof (induction n arbitrary: s)
  case 0
  show ?case by simp
next
  case (Suc n)
  from Suc[of "snd (evictor s)"] slot_evictor[of s cid ty] show ?case by auto
qed

lemma core_geoMaps: "core s = core t \<Longrightarrow> geoMaps s = geoMaps t"
  by (simp add: core_def)

lemma emit_fields [simp]:
  "time (emit es s) = time s"
  "state.canvas (emit es s) = state.canvas s"
  "geoMaps (emit es s) = geoMaps s"
  "currentGeoMap (emit es s) = currentGeoMap s"
  "currentBoundGeoType (emit es s) = currentBoundGeoType s"
  "document (emit es s) = document s"
  "allocated (emit es s) = allocated s"
  "effects (emit es s) = effects s @ es"
  by (simp_all add: emit_def)

lemma createGeometry_failure:
  assumes "createGeometry k a type0 d s = (Inl e, s')"
  shows "(\<exists>es. effects s' = effects s @ es @ map Destroy (created es)
            \<and> (e = OutOfMemoryException \<and> snd (a ''geometry vertex buffer'') \<longrightarrow> created es \<noteq> []))
         \<and> (\<exists>n\<le>requested a. geoMaps s' = geoMaps (evictions n s))
         \<and> (\<forall>cid ty. slot s' cid ty = slot s cid ty \<or> slot s' cid ty = None)"
using assms proof (cases rule: createGeometry_cases)
  case (fail e' bufs s1)
  from fail(2) obtain n es where n: "n \<le> requested a" "core s1 = core (evictions n s)"
    and es: "effects s1 = effects s @ es" "created es = bufs"
    unfolding during_def by blast
  have g: "geoMaps s' = geoMaps (evictions n s)"
    using fail(3) core_geoMaps[OF n(2)] by simp
  have 1: "effects s' = effects s @ es @ map Destroy (created es)"
    using fail(3) es by simp
  have 2: "e = OutOfMemoryException \<and> snd (a ''geometry vertex buffer'') \<longrightarrow> created es \<noteq> []"
    using fail(1,4) es(2) by auto
  have 3: "slot s' cid ty = slot s cid ty \<or> slot s' cid ty = None" for cid ty
    using slot_geoMaps[OF g, of cid ty] slot_evictions[of n s cid ty] by auto
  from 1 2 g n(1) 3 show ?thesis by blast
next
  case (ok ty c cid geo s1)
  then show ?thesis by simp
qed

lemma getPrimitiveType_kinds:
  "(\<exists>e. getPrimitiveType p = Inl e) \<longleftrightarrow> p \<notin> set kinds"
  by (simp add: getPrimitiveType_def kinds_def)

text \<open>
  C3, as amended. When createGeometry raises the allocation error, its log ends with the
  destruction of exactly the buffers the call created (at least one when the vertex
  allocation, the first, succeeded), and the call has stored nothing: the caches are as
  the evictions that the memory module ran during the allocations left them. Every slot
  holds what it held before the call or has been emptied, and the caches are unchanged
  when the memory module asked for no eviction.
\<close>

theorem createGeometry_allocation_failure:
  assumes "createGeometry k a type0 d s = (Inl OutOfMemoryException, s')"
  shows "(\<exists>es. effects s' = effects s @ es @ map Destroy (created es)
            \<and> (snd (a ''geometry vertex buffer'') \<longrightarrow> created es \<noteq> []))
         \<and> (\<exists>n\<le>requested a. geoMaps s' = geoMaps (evictions n s))
         \<and> (requested a = 0 \<longrightarrow> geoMaps s' = geoMaps s)
         \<and> (\<forall>cid ty. slot s' cid ty = slot s cid ty \<or> slot s' cid ty = None)"
proof -
  note f = createGeometry_failure[OF assms]
  from f obtain n where "n \<le> requested a" "geoMaps s' = geoMaps (evictions n s)" by blast
  then have "requested a = 0 \<longrightarrow> geoMaps s' = geoMaps s" by auto
  with f show ?thesis by simp
qed

text \<open>
  The theorem at a call whose vertex allocation succeeds and whose index allocation
  throws.
\<close>

theorem createGeometry_allocation_failure_witness:
  "createGeometry key0 pressed (Some ''B'') triangle sceneOld
     = (Inl OutOfMemoryException, snd (createGeometry key0 pressed (Some ''B'') triangle sceneOld))
   \<and> (\<exists>es. effects (snd (createGeometry key0 pressed (Some ''B'') triangle sceneOld))
              = effects sceneOld @ es @ map Destroy (created es)
            \<and> (snd (pressed ''geometry vertex buffer'') \<longrightarrow> created es \<noteq> []))
   \<and> (\<exists>n\<le>requested pressed.
         geoMaps (snd (createGeometry key0 pressed (Some ''B'') triangle sceneOld))
           = geoMaps (evictions n sceneOld))
   \<and> snd (pressed ''geometry vertex buffer'')"
proof -
  have f: "fst (createGeometry key0 pressed (Some ''B'') triangle sceneOld) = Inl OutOfMemoryException"
    by code_simp
  have h: "createGeometry key0 pressed (Some ''B'') triangle sceneOld
     = (Inl OutOfMemoryException, snd (createGeometry key0 pressed (Some ''B'') triangle sceneOld))"
    using f by (simp add: prod_eq_iff)
  have v: "snd (pressed ''geometry vertex buffer'')" by (simp add: pressed_def)
  from createGeometry_allocation_failure[OF h] h v show ?thesis by blast
qed

text \<open>
  C3, as stated, fails: the vertex allocation succeeds after the memory module has run the
  evictor once, which destroys the old record A of the active canvas; the index allocation
  then throws, and the failed call leaves the active cache without A.
\<close>

theorem createGeometry_failure_after_eviction:
  "snd (pressed ''geometry vertex buffer'') \<and> \<not> snd (pressed ''geometry index buffer'')
   \<and> fst (createGeometry key0 pressed (Some ''B'') triangle sceneOld) = Inl OutOfMemoryException
   \<and> currentGeoMap sceneOld = Some ''S1''
   \<and> slot sceneOld ''S1'' ''A'' \<noteq> None
   \<and> slot (snd (createGeometry key0 pressed (Some ''B'') triangle sceneOld)) ''S1'' ''A'' = None
   \<and> geoMaps (snd (createGeometry key0 pressed (Some ''B'') triangle sceneOld)) \<noteq> geoMaps sceneOld"
  by code_simp






section \<open>Invariants of the module\<close>

lemma wf_cong:
  "geoMaps s = geoMaps t \<Longrightarrow> currentGeoMap s = currentGeoMap t \<Longrightarrow> state.canvas s = state.canvas t
   \<Longrightarrow> wf s = wf t"
  by (simp add: wf_def cong: option.case_cong)

lemma set_update_subset: "set (AList.update k v al) \<subseteq> insert (k, v) (set al)"
  by (induction al) auto

lemma wfGeoMap_update:
  assumes "wfGeoMap cid geoMap"
    and "case v of None \<Rightarrow> True | Some geo \<Rightarrow> type geo = ty \<and> canvasId (geometry.canvas geo) = cid"
  shows "wfGeoMap cid (AList.update ty v geoMap)"
proof -
  have d: "distinct (map fst (AList.update ty v geoMap))"
    using assms(1) by (simp add: wfGeoMap_def distinct_update)
  have "set (AList.update ty v geoMap) \<subseteq> insert (ty, v) (set geoMap)"
    by (rule set_update_subset)
  then have "\<forall>(ty', sl) \<in> set (AList.update ty v geoMap).
      case sl of None \<Rightarrow> True | Some geo \<Rightarrow> type geo = ty' \<and> canvasId (geometry.canvas geo) = cid"
    using assms by (auto simp: wfGeoMap_def)
  with d show ?thesis by (simp add: wfGeoMap_def)
qed

lemma wfGeoMaps_map_entry:
  assumes "\<forall>(c, geoMap) \<in> set gms. wfGeoMap c geoMap"
    and "\<And>geoMap. wfGeoMap cid geoMap \<Longrightarrow> wfGeoMap cid (f geoMap)"
  shows "\<forall>(c, geoMap) \<in> set (AList.map_entry cid f gms). wfGeoMap c geoMap"
  using assms(1)
proof (induction gms)
  case Nil
  show ?case by simp
next
  case (Cons p gms)
  then show ?case using assms(2) by (cases p) auto
qed

lemma map_of_map_entry_None [simp]:
  "(map_of (AList.map_entry k f xs) k' = None) = (map_of xs k' = None)"
  by (simp add: map_of_map_entry split: option.splits)

lemma wf_store:
  assumes "wf s"
    and "case v of None \<Rightarrow> True | Some geo \<Rightarrow> type geo = ty \<and> canvasId (geometry.canvas geo) = cid"
  shows "wf (s\<lparr>geoMaps := AList.map_entry cid (AList.update ty v) (geoMaps s)\<rparr>)"
proof -
  have 1: "distinct (map fst (AList.map_entry cid (AList.update ty v) (geoMaps s)))"
    using assms(1) by (simp add: wf_def distinct_map_entry)
  have 2: "\<forall>(c, geoMap) \<in> set (AList.map_entry cid (AList.update ty v) (geoMaps s)). wfGeoMap c geoMap"
    using assms(1) wfGeoMap_update[OF _ assms(2)]
    by (intro wfGeoMaps_map_entry) (simp_all add: wf_def)
  have 3: "(case currentGeoMap s of
            None \<Rightarrow> state.canvas s = None
          | Some c \<Rightarrow> map_option canvasId (state.canvas s) = Some c
              \<and> c \<in> fst ` set (AList.map_entry cid (AList.update ty v) (geoMaps s)))"
    using assms(1) unfolding wf_def by (simp add: dom_map_entry split: option.splits)
  show ?thesis unfolding wf_def using 1 2 3 by (auto split: option.splits)
qed

lemma wf_init: "wf (init t doc)"
  by (simp add: wf_def init_def)

lemma wf_destroyGeometry: "wf s \<Longrightarrow> wf (destroyGeometry geo s)"
proof -
  assume w: "wf s"
  let ?s = "s\<lparr>geoMaps := AList.map_entry (canvasId (geometry.canvas geo))
                (AList.update (type geo) None) (geoMaps s)\<rparr>"
  have "wf ?s" using w by (rule wf_store) simp
  moreover have "wf (destroyGeometry geo s) = wf ?s"
    by (rule wf_cong) (simp_all add: destroyGeometry_geoMaps)
  ultimately show ?thesis by simp
qed

lemma wf_evictor: "wf s \<Longrightarrow> wf (snd (evictor s))"
  by (simp add: evictor_def wf_destroyGeometry split: option.splits)

lemma wf_evictions: "wf s \<Longrightarrow> wf (evictions n s)"
  by (induction n arbitrary: s) (simp_all add: wf_evictor)

lemma wf_resetGeoMap: "wf s \<Longrightarrow> wf (snd (resetGeoMap cid tys s))"
  by (induction tys arbitrary: s) (simp_all add: wf_destroyGeometry split: option.splits)

lemma wf_resetGeoMaps: "wf s \<Longrightarrow> wf (snd (resetGeoMaps cids s))"
proof (induction cids arbitrary: s)
  case Nil
  then show ?case by simp
next
  case (Cons cid cids)
  show ?case
  proof (cases "map_of (geoMaps s) cid")
    case None
    then show ?thesis using Cons by simp
  next
    case (Some geoMap)
    obtain e s1 where r: "resetGeoMap cid (map fst geoMap) s = (e, s1)"
      by (cases "resetGeoMap cid (map fst geoMap) s")
    have "wf s1" using wf_resetGeoMap[OF Cons.prems, of cid "map fst geoMap"] r by simp
    then show ?thesis using Some r Cons.IH[of s1] by (cases e) simp_all
  qed
qed

lemma wf_onEvent: "wf s \<Longrightarrow> wf (snd (onEvent ev s))"
proof (cases ev)
  case (CANVAS_ACTIVATED c)
  assume w: "wf s"
  show ?thesis
  proof (cases "map_of (geoMaps s) (canvasId c) = None")
    case True
    have "\<forall>(cid, geoMap) \<in> set (AList.update (canvasId c) [] (geoMaps s)). wfGeoMap cid geoMap"
    proof -
      have "set (AList.update (canvasId c) [] (geoMaps s)) \<subseteq> insert (canvasId c, []) (set (geoMaps s))"
        by (rule set_update_subset)
      moreover have "wfGeoMap (canvasId c) []" by (simp add: wfGeoMap_def)
      ultimately show ?thesis using w by (auto simp: wf_def)
    qed
    then show ?thesis using w True CANVAS_ACTIVATED
      by (simp add: wf_def distinct_update dom_update)
  next
    case False
    then have k: "canvasId c \<in> fst ` set (geoMaps s)" by (simp add: map_of_eq_None_iff)
    have "snd (onEvent ev s) = s\<lparr>state.canvas := Some c, currentGeoMap := Some (canvasId c),
        currentBoundGeoType := None\<rparr>"
      using False CANVAS_ACTIVATED by auto
    then show ?thesis using w k by (simp add: wf_def)
  qed
next
  case RESET
  assume w: "wf s"
  obtain e s1 where r: "resetGeoMaps (map fst (geoMaps s)) s = (e, s1)"
    by (cases "resetGeoMaps (map fst (geoMaps s)) s")
  have "wf s1" using wf_resetGeoMaps[OF w, of "map fst (geoMaps s)"] r by simp
  then show ?thesis using RESET r by (cases e) (simp_all add: wf_def)
qed (auto simp: wf_def split: option.splits)


lemma wf_slot:
  assumes "wf s" and "slot s cid ty = Some geo"
  shows "type geo = ty \<and> canvasId (geometry.canvas geo) = cid"
proof -
  from assms(2) obtain geoMap where m: "map_of (geoMaps s) cid = Some geoMap"
    and g: "map_of geoMap ty = Some (Some geo)"
    by (auto simp: slot_def split: option.splits)
  have "(cid, geoMap) \<in> set (geoMaps s)" using m by (rule map_of_SomeD)
  then have "wfGeoMap cid geoMap" using assms(1) by (auto simp: wf_def)
  moreover have "(ty, Some geo) \<in> set geoMap" using g by (rule map_of_SomeD)
  ultimately show ?thesis by (auto simp: wfGeoMap_def)
qed

lemma slot_store:
  "slot (s\<lparr>geoMaps := AList.map_entry cid (AList.update ty v) (geoMaps s)\<rparr>) cid' ty' =
     (if cid' = cid \<and> ty' = ty \<and> map_of (geoMaps s) cid \<noteq> None then v else slot s cid' ty')"
  by (auto simp: slot_def map_of_map_entry update_conv' split: option.splits)

lemma slot_Some_map: "slot s cid ty = Some geo \<Longrightarrow> map_of (geoMaps s) cid \<noteq> None"
  by (auto simp: slot_def split: option.splits)

lemma wf_createGeometry:
  assumes "wf s" and "createGeometry k a type0 d s = (r, s')"
  shows "wf s'"
  using assms(2)
proof (cases rule: createGeometry_cases)
  case (fail e bufs s1)
  from fail(2) obtain n where n: "core s1 = core (evictions n s)"
    and fr: "state.canvas s1 = state.canvas s" "currentGeoMap s1 = currentGeoMap s"
    unfolding during_def by blast
  have "wf s' = wf (evictions n s)"
    using fail(3) core_geoMaps[OF n] fr by (intro wf_cong) simp_all
  then show ?thesis using wf_evictions[OF assms(1)] by simp
next
  case (ok ty c cid geo s1)
  from ok(11) obtain n where n: "core s1 = core (evictions n s)"
    and fr: "state.canvas s1 = state.canvas s" "currentGeoMap s1 = currentGeoMap s"
    unfolding during_def by blast
  have "wf s1 = wf (evictions n s)"
    using core_geoMaps[OF n] fr by (intro wf_cong) simp_all
  then have w1: "wf s1" using wf_evictions[OF assms(1)] by simp
  have "canvasId c = cid" using assms(1) ok(2,3) by (simp add: wf_def)
  then have "case Some geo of None \<Rightarrow> True
      | Some g \<Rightarrow> type g = ty \<and> canvasId (geometry.canvas g) = cid"
    using ok(8,10) by simp
  from wf_store[OF w1 this] show ?thesis using ok(12) by simp
qed

lemma drawGeometry_no_canvas:
  "state.canvas s = None \<Longrightarrow> drawGeometry b ty s = (Some Undefined, s)"
  by (simp add: drawGeometry_def)

lemma drawGeometry_no_cache:
  "state.canvas s = Some c \<Longrightarrow> currentGeoMap s = None \<Longrightarrow> drawGeometry b ty s = (Some TypeError, s)"
  by (simp add: drawGeometry_def)

lemma drawGeometry_no_record:
  assumes "state.canvas s = Some c" "currentGeoMap s = Some cid" "slot s cid ty = None"
  shows "drawGeometry b ty s =
     (Some TypeError,
      (emit [FireEvent (GEOMETRY_UPDATED None), FireEvent SHADER_ACTIVATE] s)
        \<lparr>currentBoundGeoType := (if b then None else currentBoundGeoType s)\<rparr>)"
  using assms by (simp add: drawGeometry_def Let_def emit_def)

lemma drawGeometry_record:
  assumes "state.canvas s = Some c" "currentGeoMap s = Some cid" "slot s cid ty = Some g"
  shows "drawGeometry b ty s =
     (None,
      s\<lparr>geoMaps := AList.map_entry cid (AList.update ty (Some (g\<lparr>lastUsed := time s\<rparr>))) (geoMaps s),
        currentBoundGeoType := Some ty,
        effects := effects s
          @ [FireEvent (GEOMETRY_UPDATED (Some g)), FireEvent SHADER_ACTIVATE]
          @ (if \<not> b \<and> currentBoundGeoType s = Some ty then []
             else map DisableVertexAttribArray [0..<8]
                  @ [FireEvent (GEOMETRY_EXPORTED (g\<lparr>lastUsed := time s\<rparr>)), Bind (indexBuf g)])
          @ [DrawElements (geometry.primitive g) (numItems (indexBuf g)), Flush]\<rparr>)"
  using assms by (simp add: drawGeometry_def Let_def emit_def)

lemma wf_drawGeometry:
  assumes "wf s"
  shows "wf (snd (drawGeometry b ty s))"
proof (cases "state.canvas s")
  case None
  then show ?thesis using assms by (simp add: drawGeometry_no_canvas)
next
  case (Some c)
  show ?thesis
  proof (cases "currentGeoMap s")
    case None
    then show ?thesis using assms Some by (simp add: drawGeometry_no_cache)
  next
    case cid: (Some cid)
    show ?thesis
    proof (cases "slot s cid ty")
      case None
      have "wf (snd (drawGeometry b ty s)) = wf s"
        by (rule wf_cong) (simp_all add: drawGeometry_no_record[OF Some cid None])
      then show ?thesis using assms by simp
    next
      case g: (Some g)
      let ?g = "g\<lparr>lastUsed := time s\<rparr>"
      let ?s = "s\<lparr>geoMaps := AList.map_entry cid (AList.update ty (Some ?g)) (geoMaps s)\<rparr>"
      have "case Some ?g of None \<Rightarrow> True
          | Some g' \<Rightarrow> type g' = ty \<and> canvasId (geometry.canvas g') = cid"
        using wf_slot[OF assms g] by simp
      from wf_store[OF assms this] have "wf ?s" .
      moreover have "wf (snd (drawGeometry b ty s)) = wf ?s"
        by (rule wf_cong) (simp_all add: drawGeometry_record[OF Some cid g])
      ultimately show ?thesis by simp
    qed
  qed
qed

lemma wf_step: "wf s \<Longrightarrow> wf (step k c s)"
proof (cases c)
  case (CreateGeometry a type0 d)
  assume "wf s"
  then show ?thesis using CreateGeometry wf_createGeometry[of s k a type0 d]
    by (cases "createGeometry k a type0 d s") simp
qed (simp_all add: wf_onEvent wf_evictor wf_drawGeometry)

lemma wf_run: "wf s \<Longrightarrow> wf (run k cs s)"
  by (induction cs arbitrary: s) (simp_all add: wf_step)


lemma boundValid_cong:
  "core s = core t \<Longrightarrow> currentGeoMap s = currentGeoMap t \<Longrightarrow> boundValid s = boundValid t"
  by (auto simp: boundValid_def core_def slot_def split: option.splits)

lemma boundValid_destroyGeometry: "boundValid s \<Longrightarrow> boundValid (destroyGeometry geo s)"
  by (auto simp: boundValid_def destroyGeometry_bound slot_destroyGeometry split: option.splits)

lemma boundValid_evictor: "boundValid s \<Longrightarrow> boundValid (snd (evictor s))"
  by (simp add: evictor_def boundValid_destroyGeometry split: option.splits)

lemma boundValid_evictions: "boundValid s \<Longrightarrow> boundValid (evictions n s)"
  by (induction n arbitrary: s) (simp_all add: boundValid_evictor)

lemma boundValid_resetGeoMap: "boundValid s \<Longrightarrow> boundValid (snd (resetGeoMap cid tys s))"
  by (induction tys arbitrary: s) (simp_all add: boundValid_destroyGeometry split: option.splits)

lemma boundValid_resetGeoMaps: "boundValid s \<Longrightarrow> boundValid (snd (resetGeoMaps cids s))"
proof (induction cids arbitrary: s)
  case Nil
  then show ?case by simp
next
  case (Cons cid cids)
  show ?case
  proof (cases "map_of (geoMaps s) cid")
    case None
    then show ?thesis using Cons by simp
  next
    case (Some geoMap)
    obtain e s1 where r: "resetGeoMap cid (map fst geoMap) s = (e, s1)"
      by (cases "resetGeoMap cid (map fst geoMap) s")
    have "boundValid s1" using boundValid_resetGeoMap[OF Cons.prems, of cid "map fst geoMap"] r by simp
    then show ?thesis using Some r Cons.IH[of s1] by (cases e) simp_all
  qed
qed

lemma boundValid_onEvent: "boundValid s \<Longrightarrow> boundValid (snd (onEvent ev s))"
proof (cases ev)
  case (TIME_UPDATED t)
  assume "boundValid s"
  then show ?thesis using TIME_UPDATED by (auto simp: boundValid_def slot_def split: option.splits)
next
  case RESET
  assume b: "boundValid s"
  obtain e s1 where r: "resetGeoMaps (map fst (geoMaps s)) s = (e, s1)"
    by (cases "resetGeoMaps (map fst (geoMaps s)) s")
  have "boundValid s1" using boundValid_resetGeoMaps[OF b, of "map fst (geoMaps s)"] r by simp
  then show ?thesis using RESET r by (cases e) (simp_all add: boundValid_def)
qed (simp_all add: boundValid_def Let_def)

lemma boundValid_createGeometry:
  assumes "boundValid s" and "createGeometry k a type0 d s = (r, s')"
  shows "boundValid s'"
  using assms(2)
proof (cases rule: createGeometry_cases)
  case (fail e bufs s1)
  from fail(2) obtain n where n: "core s1 = core (evictions n s)"
    and fr: "currentGeoMap s1 = currentGeoMap s"
    unfolding during_def by blast
  have "core s' = core (evictions n s)" "currentGeoMap s' = currentGeoMap (evictions n s)"
    using fail(3) n fr by (simp_all add: core_def)
  then have "boundValid s' = boundValid (evictions n s)" by (rule boundValid_cong)
  then show ?thesis using boundValid_evictions[OF assms(1)] by simp
next
  case (ok ty c cid geo s1)
  from ok(11) obtain n where n: "core s1 = core (evictions n s)"
    and fr: "currentGeoMap s1 = currentGeoMap s"
    unfolding during_def by blast
  have "boundValid s1 = boundValid (evictions n s)"
    using n fr by (intro boundValid_cong) simp_all
  then have "boundValid s1" using boundValid_evictions[OF assms(1)] by simp
  then show ?thesis using ok(12)
    by (auto simp: boundValid_def slot_store split: option.splits)
qed

lemma boundValid_drawGeometry:
  assumes "boundValid s"
  shows "boundValid (snd (drawGeometry b ty s))"
proof (cases "state.canvas s")
  case None
  then show ?thesis using assms by (simp add: drawGeometry_no_canvas)
next
  case (Some c)
  show ?thesis
  proof (cases "currentGeoMap s")
    case None
    then show ?thesis using assms Some by (simp add: drawGeometry_no_cache)
  next
    case cid: (Some cid)
    show ?thesis
    proof (cases "slot s cid ty")
      case None
      show ?thesis using assms
        by (auto simp: drawGeometry_no_record[OF Some cid None] boundValid_def slot_def
            split: option.splits)
    next
      case g: (Some g)
      show ?thesis using cid slot_Some_map[OF g]
        by (simp add: drawGeometry_record[OF Some cid g] boundValid_def slot_def
            map_of_map_entry update_conv' split: option.splits)
    qed
  qed
qed

lemma boundValid_step: "boundValid s \<Longrightarrow> boundValid (step k c s)"
proof (cases c)
  case (CreateGeometry a type0 d)
  assume "boundValid s"
  then show ?thesis using CreateGeometry boundValid_createGeometry[of s k a type0 d]
    by (cases "createGeometry k a type0 d s") simp
qed (simp_all add: boundValid_onEvent boundValid_evictor boundValid_drawGeometry)

lemma boundValid_run: "boundValid s \<Longrightarrow> boundValid (run k cs s)"
  by (induction cs arbitrary: s) (simp_all add: boundValid_step)

lemma boundValid_init: "boundValid (init t doc)"
  by (simp add: boundValid_def init_def)

section \<open>drawGeometry and bind elision\<close>

lemma exported_simps [simp]:
  "exported [] = []"
  "exported (Create b # es) = exported es"
  "exported (Destroy b # es) = exported es"
  "exported (Bind b # es) = exported es"
  "exported (DisableVertexAttribArray i # es) = exported es"
  "exported (DrawElements p n # es) = exported es"
  "exported (Flush # es) = exported es"
  "exported (FireEvent (GEOMETRY_UPDATED go) # es) = exported es"
  "exported (FireEvent SHADER_ACTIVATE # es) = exported es"
  "exported (FireEvent (GEOMETRY_EXPORTED geo) # es) = geo # exported es"
  "exported (es @ es') = exported es @ exported es'"
  by (simp_all add: exported_def)

lemma exported_disable [simp]: "exported (map DisableVertexAttribArray is) = []"
  by (induction "is") simp_all

lemma drawGeometry_slot:
  assumes "state.canvas s = Some c" "currentGeoMap s = Some cid" "slot s cid ty = Some g"
  shows "slot (snd (drawGeometry b ty s)) cid' ty' =
     (if cid' = cid \<and> ty' = ty then Some (g\<lparr>lastUsed := time s\<rparr>) else slot s cid' ty')"
proof -
  let ?s = "s\<lparr>geoMaps := AList.map_entry cid (AList.update ty (Some (g\<lparr>lastUsed := time s\<rparr>))) (geoMaps s)\<rparr>"
  have "slot (snd (drawGeometry b ty s)) cid' ty' = slot ?s cid' ty'"
    by (rule slot_geoMaps) (simp add: drawGeometry_record[OF assms])
  then show ?thesis using slot_Some_map[OF assms(3)] by (simp add: slot_store)
qed

lemma drawGeometry_elision:
  assumes "state.canvas s = Some c" "currentGeoMap s = Some cid" "slot s cid ty = Some g"
  shows "fst (drawGeometry False ty s) = None"
    and "exported (effects (snd (drawGeometry False ty s))) =
           exported (effects s)
           @ (if currentBoundGeoType s = Some ty then [] else [g\<lparr>lastUsed := time s\<rparr>])"
    and "currentBoundGeoType (snd (drawGeometry False ty s)) = Some ty"
    and "state.canvas (snd (drawGeometry False ty s)) = state.canvas s"
    and "currentGeoMap (snd (drawGeometry False ty s)) = currentGeoMap s"
    and "time (snd (drawGeometry False ty s)) = time s"
  by (simp_all add: drawGeometry_record[OF assms])

lemma changes_replicate: "changes b (replicate (Suc n) t) = (if b = Some t then [] else [t])"
proof (induction n arbitrary: b)
  case 0
  show ?case by simp
next
  case (Suc n)
  have "changes b (replicate (Suc (Suc n)) t)
      = (if b = Some t then [] else [t]) @ changes (Some t) (replicate (Suc n) t)"
    by simp
  also have "changes (Some t) (replicate (Suc n) t) = []" by (simp add: Suc del: replicate_Suc)
  finally show ?case by simp
qed

lemma drawAll_elision:
  assumes "state.canvas s \<noteq> None" "currentGeoMap s = Some cid" "\<forall>t \<in> set ts. slot s cid t \<noteq> None"
  shows "fst (drawAll ts s) = None
    \<and> exported (effects (snd (drawAll ts s))) =
          exported (effects s)
          @ map (\<lambda>t. (the (slot s cid t))\<lparr>lastUsed := time s\<rparr>) (changes (currentBoundGeoType s) ts)
    \<and> currentBoundGeoType (snd (drawAll ts s)) =
          (if ts = [] then currentBoundGeoType s else Some (last ts))"
  using assms
proof (induction ts arbitrary: s)
  case Nil
  show ?case by simp
next
  case (Cons t ts)
  from Cons.prems obtain c g where c: "state.canvas s = Some c" and g: "slot s cid t = Some g"
    by auto
  note e = drawGeometry_elision[OF c Cons.prems(2) g]
  note sl = drawGeometry_slot[OF c Cons.prems(2) g, of False]
  let ?s = "snd (drawGeometry False t s)"
  let ?rec = "\<lambda>s t. (the (slot s cid t))\<lparr>lastUsed := time s\<rparr>"
  have d: "drawAll (t # ts) s = drawAll ts ?s"
    using e(1) by (cases "drawGeometry False t s") simp
  have p: "state.canvas ?s \<noteq> None" "currentGeoMap ?s = Some cid" "\<forall>t' \<in> set ts. slot ?s cid t' \<noteq> None"
    using e(4,5) c Cons.prems(2,3) by (simp_all add: sl)
  have same: "?rec ?s t' = ?rec s t'" for t'
    using g by (simp add: sl e(6))
  note ih = Cons.IH[OF p]
  have 1: "fst (drawAll (t # ts) s) = None" using ih d by simp
  have "exported (effects (snd (drawAll (t # ts) s))) =
      exported (effects ?s) @ map (?rec ?s) (changes (currentBoundGeoType ?s) ts)"
    using ih d by simp
  also have "\<dots> = exported (effects s)
      @ (if currentBoundGeoType s = Some t then [] else [g\<lparr>lastUsed := time s\<rparr>])
      @ map (?rec s) (changes (Some t) ts)"
    using same by (simp add: e(2,3))
  also have "\<dots> = exported (effects s) @ map (?rec s) (changes (currentBoundGeoType s) (t # ts))"
    using g by simp
  finally have 2: "exported (effects (snd (drawAll (t # ts) s))) =
      exported (effects s) @ map (?rec s) (changes (currentBoundGeoType s) (t # ts))" .
  have 3: "currentBoundGeoType (snd (drawAll (t # ts) s)) = Some (last (t # ts))"
    using ih d e(3) by simp
  from 1 2 3 show ?case by simp
qed

lemma drawAll_single: "drawAll [t] s = drawGeometry False t s"
  by (cases "drawGeometry False t s") (auto split: option.splits)

text \<open>
  C4. On an active surface, a sequence of drawGeometry calls for records that exist in its
  cache, with no other event in between, raises nothing; it fires \<^verbatim>\<open>GEOMETRY_EXPORTED\<close>
  exactly at the calls whose type differs from the type bound at that moment (the types
  \<open>changes b ts\<close>, each event carrying the record of that type with its \<^verbatim>\<open>lastUsed\<close> set to
  the clock), and leaves the last type drawn bound. For one call this is: the export
  fires if and only if the bound type differs from \<open>t\<close>. Repeated draws of one type fire
  it once at most, and a draw of another type in between causes a re-export.
\<close>

theorem drawGeometry_bind_elision:
  assumes "state.canvas s \<noteq> None" and "currentGeoMap s = Some cid"
    and "\<forall>t \<in> set ts. slot s cid t \<noteq> None"
  shows "fst (drawAll ts s) = None
    \<and> exported (effects (snd (drawAll ts s))) =
          exported (effects s)
          @ map (\<lambda>t. (the (slot s cid t))\<lparr>lastUsed := time s\<rparr>) (changes (currentBoundGeoType s) ts)
    \<and> currentBoundGeoType (snd (drawAll ts s)) =
          (if ts = [] then currentBoundGeoType s else Some (last ts))
    \<and> drawAll [t] s = drawGeometry False t s
    \<and> changes b [t] = (if b = Some t then [] else [t])
    \<and> changes b (replicate (Suc n) t) = (if b = Some t then [] else [t])
    \<and> (t1 \<noteq> t2 \<longrightarrow> changes b [t1, t2, t1] = (if b = Some t1 then [] else [t1]) @ [t2, t1])"
  using drawAll_elision[OF assms] changes_replicate[of b n t] drawAll_single[of t s] by simp

text \<open>
  The theorem at four draws A, A, B, A of existing records with nothing bound before: the
  export fires for A, for B and for A again.
\<close>

theorem drawGeometry_bind_elision_witness:
  "state.canvas sceneAB \<noteq> None \<and> currentGeoMap sceneAB = Some ''S1''
   \<and> slot sceneAB ''S1'' ''A'' \<noteq> None \<and> slot sceneAB ''S1'' ''B'' \<noteq> None
   \<and> currentBoundGeoType sceneAB = None
   \<and> fst (drawAll [''A'', ''A'', ''B'', ''A''] sceneAB) = None
   \<and> map type (exported (effects (snd (drawAll [''A'', ''A'', ''B'', ''A''] sceneAB))))
       = [''A'', ''B'', ''A'']
   \<and> currentBoundGeoType (snd (drawAll [''A'', ''A'', ''B'', ''A''] sceneAB)) = Some ''A''"
proof -
  have h: "state.canvas sceneAB \<noteq> None" "currentGeoMap sceneAB = Some ''S1''"
    "\<forall>t \<in> set [''A'', ''A'', ''B'', ''A'']. slot sceneAB ''S1'' t \<noteq> None"
    by code_simp+
  have v: "slot sceneAB ''S1'' ''A'' \<noteq> None" "slot sceneAB ''S1'' ''B'' \<noteq> None"
    "currentBoundGeoType sceneAB = None" "exported (effects sceneAB) = []"
    "type (the (slot sceneAB ''S1'' ''A'')) = ''A''" "type (the (slot sceneAB ''S1'' ''B'')) = ''B''"
    by code_simp+
  from drawGeometry_bind_elision[OF h, of "''A''" None 0 "''A''" "''B''"] h(1,2) v
  show ?thesis by simp
qed

section \<open>Calls without an active surface\<close>

lemma resetGeoMap_frame:
  "state.canvas (snd (resetGeoMap cid tys s)) = state.canvas s
   \<and> currentGeoMap (snd (resetGeoMap cid tys s)) = currentGeoMap s
   \<and> time (snd (resetGeoMap cid tys s)) = time s
   \<and> document (snd (resetGeoMap cid tys s)) = document s"
  by (induction tys arbitrary: s) (simp_all split: option.splits)

lemma resetGeoMaps_frame:
  "state.canvas (snd (resetGeoMaps cids s)) = state.canvas s
   \<and> currentGeoMap (snd (resetGeoMaps cids s)) = currentGeoMap s
   \<and> time (snd (resetGeoMaps cids s)) = time s
   \<and> document (snd (resetGeoMaps cids s)) = document s"
proof (induction cids arbitrary: s)
  case Nil
  show ?case by simp
next
  case (Cons cid cids)
  show ?case
  proof (cases "map_of (geoMaps s) cid")
    case None
    then show ?thesis using Cons by simp
  next
    case (Some geoMap)
    obtain e s1 where r: "resetGeoMap cid (map fst geoMap) s = (e, s1)"
      by (cases "resetGeoMap cid (map fst geoMap) s")
    have f: "state.canvas s1 = state.canvas s \<and> currentGeoMap s1 = currentGeoMap s
        \<and> time s1 = time s \<and> document s1 = document s"
      using resetGeoMap_frame[of cid "map fst geoMap" s] r by simp
    show ?thesis using Some r f Cons[of s1] by (cases e) simp_all
  qed
qed

lemma inactive_onEvent:
  assumes "inactive s" and "\<not> activates (Event ev)"
  shows "inactive (snd (onEvent ev s))"
proof (cases ev)
  case RESET
  obtain e s1 where r: "resetGeoMaps (map fst (geoMaps s)) s = (e, s1)"
    by (cases "resetGeoMaps (map fst (geoMaps s)) s")
  have "inactive s1"
    using resetGeoMaps_frame[of "map fst (geoMaps s)" s] r assms(1) by (simp add: inactive_def)
  then show ?thesis using RESET r by (cases e) (simp_all add: inactive_def)
qed (use assms in \<open>simp_all add: inactive_def\<close>)

lemma inactive_createGeometry:
  assumes "inactive s"
  shows "inactive (snd (createGeometry k a type0 d s))"
proof -
  obtain r s' where c: "createGeometry k a type0 d s = (r, s')"
    by (cases "createGeometry k a type0 d s")
  from c have "state.canvas s' = state.canvas s \<and> currentGeoMap s' = currentGeoMap s"
  proof (cases rule: createGeometry_cases)
    case (fail e bufs s1)
    then show ?thesis by (simp add: during_def)
  next
    case (ok ty c cid geo s1)
    then show ?thesis using assms by (simp add: inactive_def)
  qed
  then show ?thesis using assms c by (simp add: inactive_def)
qed

lemma inactive_step: "inactive s \<Longrightarrow> \<not> activates c \<Longrightarrow> inactive (step k c s)"
proof (cases c)
  case (Event ev)
  assume "inactive s" "\<not> activates c"
  then show ?thesis using Event inactive_onEvent by simp
next
  case (DrawGeometry b ty)
  assume "inactive s"
  then show ?thesis using DrawGeometry by (simp add: inactive_def drawGeometry_no_canvas)
qed (simp_all add: inactive_def inactive_createGeometry[unfolded inactive_def])

lemma inactive_run: "inactive s \<Longrightarrow> \<forall>c \<in> set cs. \<not> activates c \<Longrightarrow> inactive (run k cs s)"
  by (induction cs arbitrary: s) (simp_all add: inactive_step)

lemma inactive_after:
  assumes "ev = SCENE_ACTIVATED \<or> ev = CANVAS_DEACTIVATED \<or> ev = RESET"
    and "onEvent ev s0 = (None, s)"
  shows "inactive s"
proof -
  have "ev = RESET \<Longrightarrow> inactive s"
    using assms(2) by (auto simp: inactive_def split: prod.splits option.splits)
  then show ?thesis using assms by (auto simp: inactive_def)
qed

text \<open>
  C9. After the module is loaded, or after the handler of the scene-activated, the
  surface-deactivated or the reset event has run to its end, and for as long as no
  surface-activated event arrives, \<^verbatim>\<open>canvas\<close> and \<^verbatim>\<open>currentGeoMap\<close> are null:
  testGeometryExists then throws a TypeError for every type (it reads a property of the
  null \<^verbatim>\<open>currentGeoMap\<close>); it neither returns false nor raises NoCanvasActiveException.
  That part of the claim holds. The claim also says that drawGeometry raises the explicit
  no-active-surface error there. drawGeometry does test \<^verbatim>\<open>canvas\<close> first and does fail
  before it reads the cache, leaving the state as it was, but what it raises is not a
  NoCanvasActiveException: line 324 leaves out the \<^verbatim>\<open>new\<close> that lines 209 and 240 have,
  and \<^verbatim>\<open>fatalError\<close> is handed \<^verbatim>\<open>undefined\<close>.
\<close>

theorem testGeometryExists_without_surface:
  assumes "s = init t doc
           \<or> (\<exists>ev s0. (ev = SCENE_ACTIVATED \<or> ev = CANVAS_DEACTIVATED \<or> ev = RESET)
                 \<and> onEvent ev s0 = (None, s))"
    and "\<forall>c \<in> set cs. \<not> activates c"
  shows "state.canvas (run k cs s) = None \<and> currentGeoMap (run k cs s) = None
     \<and> testGeometryExists ty (run k cs s) = Inl TypeError
     \<and> testGeometryExists ty (run k cs s) \<noteq> Inr False
     \<and> testGeometryExists ty (run k cs s) \<noteq> Inl NoCanvasActiveException
     \<and> drawGeometry b ty (run k cs s) = (Some Undefined, run k cs s)
     \<and> fst (drawGeometry b ty (run k cs s)) \<noteq> Some NoCanvasActiveException"
proof -
  have "inactive s" using assms(1) inactive_after by (auto simp: inactive_def init_def)
  then have "inactive (run k cs s)" using assms(2) by (rule inactive_run)
  then show ?thesis
    by (simp add: inactive_def testGeometryExists_def drawGeometry_no_canvas)
qed

text \<open>
  The theorem after the surface S1 with the records A and B has been deactivated, the
  clock has moved and the evictor has run once: B is still in the cache of S1, and
  testGeometryExists throws a TypeError, and drawGeometry raises \<^verbatim>\<open>undefined\<close>.
\<close>

theorem testGeometryExists_without_surface_witness:
  "onEvent CANVAS_DEACTIVATED sceneAB = (None, snd (onEvent CANVAS_DEACTIVATED sceneAB))
   \<and> \<not> activates (Event (TIME_UPDATED 8)) \<and> \<not> activates Evict
   \<and> slot (run key0 [Event (TIME_UPDATED 8), Evict] (snd (onEvent CANVAS_DEACTIVATED sceneAB))) ''S1'' ''B'' \<noteq> None
   \<and> testGeometryExists ''B'' (run key0 [Event (TIME_UPDATED 8), Evict] (snd (onEvent CANVAS_DEACTIVATED sceneAB)))
       = Inl TypeError
   \<and> drawGeometry False ''B'' (run key0 [Event (TIME_UPDATED 8), Evict] (snd (onEvent CANVAS_DEACTIVATED sceneAB)))
       = (Some Undefined,
          run key0 [Event (TIME_UPDATED 8), Evict] (snd (onEvent CANVAS_DEACTIVATED sceneAB)))
   \<and> fst (drawGeometry False ''B'' (init 0 [''S1''])) = Some Undefined"
proof -
  have h1: "onEvent CANVAS_DEACTIVATED sceneAB = (None, snd (onEvent CANVAS_DEACTIVATED sceneAB))"
    by simp
  then have h: "snd (onEvent CANVAS_DEACTIVATED sceneAB) = init 0 []
           \<or> (\<exists>ev s0. (ev = SCENE_ACTIVATED \<or> ev = CANVAS_DEACTIVATED \<or> ev = RESET)
                 \<and> onEvent ev s0 = (None, snd (onEvent CANVAS_DEACTIVATED sceneAB)))"
    by blast
  have a: "\<forall>c \<in> set [Event (TIME_UPDATED 8), Evict]. \<not> activates c" by simp
  have v: "slot (run key0 [Event (TIME_UPDATED 8), Evict] (snd (onEvent CANVAS_DEACTIVATED sceneAB))) ''S1'' ''B'' \<noteq> None"
    by code_simp
  have i: "fst (drawGeometry False ''B'' (init 0 [''S1''])) = Some Undefined"
    by code_simp
  from testGeometryExists_without_surface[OF h a, of key0 "''B''" False] h1 v i
  show ?thesis by simp
qed

section \<open>Records used at the current tick\<close>

lemma evictee_cases:
  "(evictee s = None \<and> (\<forall>geo \<in> set (records s). \<not> evictable s geo))
   \<or> (\<exists>e. evictee s = Some e \<and> e \<in> set (records s) \<and> evictable s e
          \<and> (\<forall>geo \<in> set (records s). evictable s geo \<longrightarrow> lastUsed e \<le> lastUsed geo))"
proof -
  let ?r = "foldl (visit (document s)) (time s, None) (slots s)"
  have ev: "evictee s = snd ?r" by (rule evictee_foldl)
  have min: "fst ?r \<le> lastUsed geo"
    if "geo \<in> set (records s)" "canvasId (geometry.canvas geo) \<in> set (document s)" for geo
    using that foldl_visit_min[of geo "slots s" "document s" "(time s, None)"]
    by (simp add: set_records)
  from foldl_visit_result[of "document s" "(time s, None)" "slots s"]
  show ?thesis
  proof (elim disjE exE conjE)
    assume r: "?r = (time s, None)"
    have "\<not> evictable s geo" if "geo \<in> set (records s)" for geo
      using min[OF that] r by (auto simp: evictable_def)
    then show ?thesis using ev r by simp
  next
    fix e
    assume r: "?r = (lastUsed e, Some e)" and e: "Some e \<in> set (slots s)"
      and l: "canvasId (geometry.canvas e) \<in> set (document s)" and lt: "lastUsed e < fst (time s, None)"
    have 1: "e \<in> set (records s)" using e by (simp add: set_records)
    have 2: "evictable s e" using l lt by (simp add: evictable_def)
    have 3: "lastUsed e \<le> lastUsed geo" if "geo \<in> set (records s)" "evictable s geo" for geo
      using min[of geo] that r by (simp add: evictable_def)
    from 1 2 3 ev r show ?thesis by simp
  qed
qed

lemma evictee_SomeD:
  assumes "evictee s = Some e"
  shows "e \<in> set (records s)" and "evictable s e"
    and "geo \<in> set (records s) \<Longrightarrow> evictable s geo \<Longrightarrow> lastUsed e \<le> lastUsed geo"
  using evictee_cases[of s] assms by auto

lemma records_iff:
  "geo \<in> set (records s) \<longleftrightarrow> (\<exists>cid geoMap ty. (cid, geoMap) \<in> set (geoMaps s) \<and> (ty, Some geo) \<in> set geoMap)"
  by (force simp: set_records slots_def)

lemma slot_records: "slot s cid ty = Some geo \<Longrightarrow> geo \<in> set (records s)"
proof -
  assume "slot s cid ty = Some geo"
  then obtain geoMap where m: "map_of (geoMaps s) cid = Some geoMap"
    and g: "map_of geoMap ty = Some (Some geo)"
    by (auto simp: slot_def split: option.splits)
  have "(cid, geoMap) \<in> set (geoMaps s)" "(ty, Some geo) \<in> set geoMap"
    using m g by (auto dest: map_of_SomeD)
  then show ?thesis unfolding records_iff by blast
qed

lemma records_slot:
  assumes "wf s" and "geo \<in> set (records s)"
  shows "slot s (canvasId (geometry.canvas geo)) (type geo) = Some geo"
proof -
  from assms(2) obtain cid geoMap ty where m: "(cid, geoMap) \<in> set (geoMaps s)"
    and g: "(ty, Some geo) \<in> set geoMap" unfolding records_iff by blast
  have d: "distinct (map fst (geoMaps s))" and w: "wfGeoMap cid geoMap"
    using assms(1) m by (auto simp: wf_def)
  have k: "type geo = ty" "canvasId (geometry.canvas geo) = cid" and d': "distinct (map fst geoMap)"
    using w g by (auto simp: wfGeoMap_def)
  have "map_of (geoMaps s) cid = Some geoMap" using d m by simp
  moreover have "map_of geoMap ty = Some (Some geo)" using d' g by simp
  ultimately show ?thesis using k by (simp add: slot_def)
qed

lemma evictor_spares:
  assumes "wf s" and "slot s cid ty = Some geo" and "\<not> evictable s geo"
  shows "slot (snd (evictor s)) cid ty = Some geo"
proof (cases "evictee s")
  case None
  then show ?thesis using assms(2) by (simp add: evictor_def)
next
  case (Some e)
  note e = evictee_SomeD[OF Some]
  have "slot s (canvasId (geometry.canvas e)) (type e) = Some e"
    using assms(1) e(1) by (rule records_slot)
  then have "\<not> (cid = canvasId (geometry.canvas e) \<and> ty = type e)"
    using assms(2,3) e(2) by auto
  then show ?thesis using Some assms(2) by (simp add: evictor_def slot_destroyGeometry)
qed

lemma evictable_frame:
  "time s' = time s \<Longrightarrow> document s' = document s \<Longrightarrow> evictable s' geo = evictable s geo"
  by (simp add: evictable_def)

lemma evictions_spare:
  assumes "wf s" and "slot s cid ty = Some geo" and "\<not> evictable s geo"
  shows "slot (evictions n s) cid ty = Some geo"
  using assms
proof (induction n arbitrary: s)
  case 0
  then show ?case by simp
next
  case (Suc n)
  have "wf (snd (evictor s))" using Suc.prems(1) by (rule wf_evictor)
  moreover have "slot (snd (evictor s)) cid ty = Some geo"
    using Suc.prems by (rule evictor_spares)
  moreover have "\<not> evictable (snd (evictor s)) geo"
    using Suc.prems(3) by (simp add: evictable_def)
  ultimately show ?case using Suc.IH by simp
qed

lemma destroyGeometry_keys [simp]:
  "fst ` set (geoMaps (destroyGeometry geo s)) = fst ` set (geoMaps s)"
  by (simp add: destroyGeometry_geoMaps dom_map_entry)

lemma evictor_keys [simp]: "fst ` set (geoMaps (snd (evictor s))) = fst ` set (geoMaps s)"
  by (simp add: evictor_def split: option.splits)

lemma evictions_keys [simp]: "fst ` set (geoMaps (evictions n s)) = fst ` set (geoMaps s)"
  by (induction n arbitrary: s) simp_all

lemma createGeometry_stored:
  assumes "wf s" and "createGeometry k a type0 d s = (Inr ty, s')"
  shows "\<exists>cid geo. currentGeoMap s' = Some cid \<and> slot s' cid ty = Some geo
           \<and> type geo = ty \<and> lastUsed geo = time s' \<and> time s' = time s
           \<and> map_option canvasId (state.canvas s') = Some cid"
  using assms(2)
proof (cases rule: createGeometry_cases)
  case (fail e bufs s1)
  then show ?thesis by simp
next
  case (ok ty' c cid geo s1)
  from ok(11) obtain n where n: "core s1 = core (evictions n s)"
    and fr: "state.canvas s1 = state.canvas s" "currentGeoMap s1 = currentGeoMap s"
    unfolding during_def by blast
  have "cid \<in> fst ` set (geoMaps s)" using assms(1) ok(3) by (simp add: wf_def)
  then have "cid \<in> fst ` set (geoMaps (evictions n s))" by simp
  then have "map_of (geoMaps (evictions n s)) cid \<noteq> None" by (simp add: map_of_eq_None_iff)
  then have m: "map_of (geoMaps s1) cid \<noteq> None" using core_geoMaps[OF n] by simp
  have t: "time s1 = time s" using n by (simp add: core_def)
  have "slot s' cid ty = Some geo" using ok(1,12) m by (simp add: slot_store)
  moreover have "canvasId c = cid" using assms(1) ok(2,3) by (simp add: wf_def)
  ultimately show ?thesis using ok(1,2,3,8,9,12) fr t by simp
qed

text \<open>
  C10. createGeometry stores the record with \<^verbatim>\<open>lastUsed\<close> equal to the clock, and so does
  drawGeometry; the evictor only ever selects a record whose \<^verbatim>\<open>lastUsed\<close> is strictly below
  the clock. So a record whose \<^verbatim>\<open>lastUsed\<close> is the current tick (or later) is not the
  evictee and keeps its slot through any number of runs of the evictor, which do not move
  the clock.
\<close>

theorem lastUsed_current_tick:
  "(wf s \<and> createGeometry k a type0 d s = (Inr ty, s') \<longrightarrow>
      (\<exists>cid geo. currentGeoMap s' = Some cid \<and> slot s' cid ty = Some geo
         \<and> lastUsed geo = time s' \<and> time s' = time s))
   \<and> (drawGeometry b ty s = (None, s') \<longrightarrow>
      (\<exists>cid geo. currentGeoMap s' = Some cid \<and> slot s' cid ty = Some geo
         \<and> lastUsed geo = time s' \<and> time s' = time s))
   \<and> (\<forall>e. evictee s = Some e \<longrightarrow> lastUsed e < time s)
   \<and> (wf s \<and> slot s cid ty = Some geo \<and> time s \<le> lastUsed geo \<longrightarrow>
        evictee s \<noteq> Some geo \<and> slot (snd (evictor s)) cid ty = Some geo
        \<and> (\<forall>n. slot (evictions n s) cid ty = Some geo))"
proof -
  have 1: "\<exists>cid geo. currentGeoMap s' = Some cid \<and> slot s' cid ty = Some geo
         \<and> lastUsed geo = time s' \<and> time s' = time s"
    if "wf s" "createGeometry k a type0 d s = (Inr ty, s')"
    using createGeometry_stored[OF that] by blast
  have 2: "\<exists>cid geo. currentGeoMap s' = Some cid \<and> slot s' cid ty = Some geo
         \<and> lastUsed geo = time s' \<and> time s' = time s"
    if d: "drawGeometry b ty s = (None, s')"
  proof -
    from d obtain c where c: "state.canvas s = Some c"
      by (cases "state.canvas s") (simp_all add: drawGeometry_no_canvas)
    from d c obtain cid where cid: "currentGeoMap s = Some cid"
      by (cases "currentGeoMap s") (simp_all add: drawGeometry_no_cache)
    from d c cid obtain g where g: "slot s cid ty = Some g"
      by (cases "slot s cid ty") (simp_all add: drawGeometry_no_record)
    have s': "s' = snd (drawGeometry b ty s)" using d by simp
    have "slot s' cid ty = Some (g\<lparr>lastUsed := time s\<rparr>)"
      unfolding s' by (simp add: drawGeometry_slot[OF c cid g])
    moreover have "time s' = time s" "currentGeoMap s' = Some cid"
      unfolding s' using cid by (simp_all add: drawGeometry_record[OF c cid g])
    ultimately show ?thesis by simp
  qed
  have 3: "lastUsed e < time s" if "evictee s = Some e" for e
    using evictee_SomeD(2)[OF that] by (simp add: evictable_def)
  have 4: "evictee s \<noteq> Some geo \<and> slot (snd (evictor s)) cid ty = Some geo
        \<and> (\<forall>n. slot (evictions n s) cid ty = Some geo)"
    if "wf s" "slot s cid ty = Some geo" "time s \<le> lastUsed geo"
  proof -
    have n: "\<not> evictable s geo" using that(3) by (simp add: evictable_def)
    have "evictee s \<noteq> Some geo" using 3[of geo] that(3) by auto
    then show ?thesis using evictor_spares[OF that(1,2) n] evictions_spare[OF that(1,2) n] by simp
  qed
  from 1 2 3 4 show ?thesis by blast
qed


text \<open>
  The theorem in the scene where A was created at tick 0 and B at the current tick 5: the
  evictor takes A and leaves B.
\<close>

theorem lastUsed_current_tick_witness:
  "wf sceneOld \<and> createGeometry key0 plain (Some ''B'') triangle sceneOld = (Inr ''B'', sceneB)
   \<and> (\<exists>cid geo. currentGeoMap sceneB = Some cid \<and> slot sceneB cid ''B'' = Some geo
         \<and> lastUsed geo = time sceneB \<and> time sceneB = time sceneOld)
   \<and> wf sceneB \<and> slot sceneB ''S1'' ''B'' = Some geoB \<and> time sceneB \<le> lastUsed geoB
   \<and> evictee sceneB \<noteq> Some geoB
   \<and> slot (snd (evictor sceneB)) ''S1'' ''B'' = Some geoB
   \<and> fst (evictor sceneB) \<and> slot sceneB ''S1'' ''A'' \<noteq> None
   \<and> slot (snd (evictor sceneB)) ''S1'' ''A'' = None"
proof -
  have w: "wf sceneOld" unfolding sceneOld_def by (intro wf_run wf_init)
  have f: "fst (createGeometry key0 plain (Some ''B'') triangle sceneOld) = Inr ''B''"
    by code_simp
  have c: "createGeometry key0 plain (Some ''B'') triangle sceneOld = (Inr ''B'', sceneB)"
    using f by (simp add: sceneB_def prod_eq_iff)
  have wB: "wf sceneB" using wf_createGeometry[OF w c] .
  have v: "slot sceneB ''S1'' ''B'' = Some geoB" "time sceneB \<le> lastUsed geoB"
    "fst (evictor sceneB)" "slot sceneB ''S1'' ''A'' \<noteq> None"
    "slot (snd (evictor sceneB)) ''S1'' ''A'' = None"
    by code_simp+
  from lastUsed_current_tick[of sceneOld key0 plain "Some ''B''" triangle "''B''" sceneB]
    lastUsed_current_tick[of sceneB _ _ _ _ "''B''" _ _ "''S1''" geoB] w c wB v
  show ?thesis by blast
qed

section \<open>The life of a record\<close>

lemma slot_evictions_mono:
  assumes "slot (evictions m s) cid ty \<noteq> None" and "n \<le> m"
  shows "slot (evictions n s) cid ty \<noteq> None"
proof -
  from assms(2) obtain j where "m = n + j" using le_Suc_ex by blast
  then have "evictions m s = evictions j (evictions n s)" by (simp add: evictions_add)
  then show ?thesis using assms(1) slot_evictions[of j "evictions n s" cid ty] by auto
qed

lemma slot_onEvent:
  assumes "slot s cid ty \<noteq> None" and "ev \<noteq> RESET"
  shows "slot (snd (onEvent ev s)) cid ty \<noteq> None"
proof (cases ev)
  case (CANVAS_ACTIVATED c)
  show ?thesis
  proof (cases "map_of (geoMaps s) (canvasId c) = None")
    case True
    then have "canvasId c \<noteq> cid" using assms(1) by (auto simp: slot_def)
    then show ?thesis using assms(1) CANVAS_ACTIVATED True
      by (simp add: slot_def update_conv')
  next
    case False
    then show ?thesis using assms(1) CANVAS_ACTIVATED by (auto simp: slot_def)
  qed
qed (use assms in \<open>simp_all add: slot_def\<close>)

lemma slot_createGeometry:
  assumes "slot (evictions (requested a) s) cid ty \<noteq> None"
  shows "slot (snd (createGeometry k a type0 d s)) cid ty \<noteq> None"
proof -
  obtain r s' where c: "createGeometry k a type0 d s = (r, s')"
    by (cases "createGeometry k a type0 d s")
  from c have "slot s' cid ty \<noteq> None"
  proof (cases rule: createGeometry_cases)
    case (fail e bufs s1)
    from fail(2) obtain n where n: "n \<le> requested a" "core s1 = core (evictions n s)"
      unfolding during_def by blast
    have "slot s' cid ty = slot (evictions n s) cid ty"
      using fail(3) core_geoMaps[OF n(2)] by (intro slot_geoMaps) simp
    then show ?thesis using slot_evictions_mono[OF assms n(1)] by simp
  next
    case (ok ty' c cid' geo s1)
    from ok(11) obtain n where n: "n \<le> requested a" "core s1 = core (evictions n s)"
      unfolding during_def by blast
    have "slot s1 cid ty = slot (evictions n s) cid ty"
      using core_geoMaps[OF n(2)] by (rule slot_geoMaps)
    then have "slot s1 cid ty \<noteq> None" using slot_evictions_mono[OF assms n(1)] by simp
    then show ?thesis using ok(12) by (simp add: slot_store)
  qed
  then show ?thesis using c by simp
qed

lemma slot_drawGeometry:
  assumes "slot s cid ty \<noteq> None"
  shows "slot (snd (drawGeometry b ty' s)) cid ty \<noteq> None"
proof (cases "state.canvas s")
  case None
  then show ?thesis using assms by (simp add: drawGeometry_no_canvas)
next
  case (Some c)
  show ?thesis
  proof (cases "currentGeoMap s")
    case None
    then show ?thesis using assms Some by (simp add: drawGeometry_no_cache)
  next
    case cid: (Some cid')
    show ?thesis
    proof (cases "slot s cid' ty'")
      case None
      have "slot (snd (drawGeometry b ty' s)) cid ty = slot s cid ty"
        by (rule slot_geoMaps) (simp add: drawGeometry_no_record[OF Some cid None])
      then show ?thesis using assms by simp
    next
      case g: (Some g)
      show ?thesis using assms by (simp add: drawGeometry_slot[OF Some cid g])
    qed
  qed
qed

lemma slot_step:
  assumes "\<not> resets c" and "slot (evictions (evictionsOf c) s) cid ty \<noteq> None"
  shows "slot (step k c s) cid ty \<noteq> None"
proof (cases c)
  case (Event ev)
  then have "ev \<noteq> RESET" using assms(1) by auto
  then show ?thesis using Event assms(2) by (simp add: slot_onEvent)
next
  case Evict
  then show ?thesis using assms(2) by simp
next
  case (TestGeometryExists t)
  then show ?thesis using assms(2) by simp
next
  case (CreateGeometry a type0 d)
  then show ?thesis using assms(2) by (simp add: slot_createGeometry)
next
  case (DrawGeometry b t)
  then show ?thesis using assms(2) by (simp add: slot_drawGeometry)
qed

lemma slot_run:
  assumes "slot s cid ty \<noteq> None" and "undisturbed k cs s cid ty"
  shows "slot (run k cs s) cid ty \<noteq> None"
  using assms
proof (induction cs arbitrary: s)
  case Nil
  then show ?case by simp
next
  case (Cons c cs)
  have "slot (step k c s) cid ty \<noteq> None" using Cons.prems(2) by (simp add: slot_step)
  then show ?case using Cons.IH Cons.prems(2) by simp
qed

lemma kinds_truthy:
  assumes "p \<in> Some ` set kinds"
  shows "truthy p" and "\<exists>g. getPrimitiveType (the p) = Inr g"
proof -
  from assms obtain str where s: "p = Some str" "str \<in> set kinds" by auto
  then show "truthy p" by (auto simp: truthy_def kinds_def)
  have "\<not> (\<exists>e. getPrimitiveType str = Inl e)" using s(2) getPrimitiveType_kinds[of str] by simp
  then show "\<exists>g. getPrimitiveType (the p) = Inr g"
    using s(1) by (cases "getPrimitiveType str") auto
qed

lemma wf_active:
  assumes "wf s" and "state.canvas s \<noteq> None"
  shows "\<exists>cid geoMap. currentGeoMap s = Some cid \<and> currentCache s = Some geoMap"
proof -
  from assms obtain cid where c: "currentGeoMap s = Some cid" "cid \<in> fst ` set (geoMaps s)"
    by (auto simp: wf_def split: option.splits)
  then have "map_of (geoMaps s) cid \<noteq> None" by (simp add: map_of_eq_None_iff)
  then show ?thesis using c(1) by (auto simp: currentCache_def)
qed

text \<open>
  C8, as amended. On an active surface, with a primitive of the seven kinds and every
  allocation granted, createGeometry returns a type: the caller's when one was given,
  otherwise the key that \<^verbatim>\<open>createKeyForMap\<close> generated for the selected cache.
  testGeometryExists is then true for that type, and the record stays in its slot through
  every run of calls that does not reset and whose evictions do not take it: whenever its
  surface is the active one after such a run, testGeometryExists is true.
\<close>

theorem createGeometry_then_exists:
  assumes "wf s" and "state.canvas s \<noteq> None" and "data.primitive d \<in> Some ` set kinds"
    and "\<forall>description. snd (a description)"
  shows "\<exists>ty s' cid. createGeometry k a type0 d s = (Inr ty, s')
     \<and> (truthy type0 \<longrightarrow> type0 = Some ty)
     \<and> (\<not> truthy type0 \<longrightarrow> (\<exists>geoMap. currentCache s = Some geoMap \<and> ty = k geoMap ''type''))
     \<and> currentGeoMap s' = Some cid \<and> slot s' cid ty \<noteq> None
     \<and> testGeometryExists ty s' = Inr True
     \<and> (\<forall>cs. undisturbed k cs s' cid ty \<longrightarrow>
           slot (run k cs s') cid ty \<noteq> None
           \<and> (currentGeoMap (run k cs s') = Some cid \<longrightarrow>
                testGeometryExists ty (run k cs s') = Inr True))"
proof -
  obtain r s' where c: "createGeometry k a type0 d s = (r, s')"
    by (cases "createGeometry k a type0 d s")
  from wf_active[OF assms(1,2)] obtain cid0 geoMap where
    a: "currentGeoMap s = Some cid0" "currentCache s = Some geoMap" by blast
  note pr = kinds_truthy[OF assms(3)]
  from c obtain ty where r: "r = Inr ty"
    and ty: "ty = (if truthy type0 then the type0 else k (the (currentCache s)) ''type'')"
  proof (cases rule: createGeometry_cases)
    case (fail e bufs s1)
    have False
    proof (cases e)
      case NodeConfigExpectedException
      then show ?thesis using fail(7) pr(1) by simp
    next
      case InvalidGeometryConfigException
      then show ?thesis using fail(8) pr(2) by auto
    next
      case NoCanvasActiveException
      then show ?thesis using fail(9) by simp
    next
      case Undefined
      then show ?thesis using fail(9) by simp
    next
      case TypeError
      then show ?thesis using fail(6) assms(2) a(2) by auto
    next
      case OutOfMemoryException
      then show ?thesis using fail(5) assms(4) by auto
    qed
    then show ?thesis ..
  next
    case (ok ty' c' cid geo s1)
    then show ?thesis using that by blast
  qed
  from createGeometry_stored[OF assms(1) c[unfolded r]] obtain cid geo where
    st: "currentGeoMap s' = Some cid" "slot s' cid ty = Some geo" by blast
  have 1: "truthy type0 \<longrightarrow> type0 = Some ty"
    using ty by (auto simp: truthy_def split: option.splits)
  have 2: "\<not> truthy type0 \<longrightarrow> (\<exists>geoMap. currentCache s = Some geoMap \<and> ty = k geoMap ''type'')"
    using ty a(2) by simp
  have 3: "testGeometryExists ty s' = Inr True" using st by (simp add: testGeometryExists_def)
  have 4: "slot (run k cs s') cid ty \<noteq> None
           \<and> (currentGeoMap (run k cs s') = Some cid \<longrightarrow>
                testGeometryExists ty (run k cs s') = Inr True)"
    if "undisturbed k cs s' cid ty" for cs
    using slot_run[OF _ that] st(2) by (simp add: testGeometryExists_def)
  from c r 1 2 3 4 st show ?thesis by blast
qed


text \<open>
  The theorem at the creation of B in the old scene, followed by the calls \<open>afterB\<close>;
  and at a creation without a type, where the key generator names the record.
\<close>

theorem createGeometry_then_exists_witness:
  "wf sceneOld \<and> state.canvas sceneOld \<noteq> None \<and> data.primitive triangle \<in> Some ` set kinds
   \<and> (\<forall>description. snd (plain description))
   \<and> (\<exists>ty s' cid. createGeometry key0 plain (Some ''B'') triangle sceneOld = (Inr ty, s')
     \<and> (truthy (Some ''B'') \<longrightarrow> Some ''B'' = Some ty)
     \<and> (\<not> truthy (Some ''B'') \<longrightarrow> (\<exists>geoMap. currentCache sceneOld = Some geoMap \<and> ty = key0 geoMap ''type''))
     \<and> currentGeoMap s' = Some cid \<and> slot s' cid ty \<noteq> None
     \<and> testGeometryExists ty s' = Inr True
     \<and> (\<forall>cs. undisturbed key0 cs s' cid ty \<longrightarrow>
           slot (run key0 cs s') cid ty \<noteq> None
           \<and> (currentGeoMap (run key0 cs s') = Some cid \<longrightarrow>
                testGeometryExists ty (run key0 cs s') = Inr True)))
   \<and> createGeometry key0 plain (Some ''B'') triangle sceneOld = (Inr ''B'', sceneB)
   \<and> undisturbed key0 afterB sceneB ''S1'' ''B''
   \<and> testGeometryExists ''B'' (run key0 afterB sceneB) = Inr True
   \<and> testGeometryExists ''A'' (run key0 afterB sceneB) = Inr False
   \<and> fst (createGeometry key0 plain None triangle sceneOld) = Inr ''type0''
   \<and> testGeometryExists ''type0'' (snd (createGeometry key0 plain None triangle sceneOld)) = Inr True"
proof -
  have w: "wf sceneOld" unfolding sceneOld_def by (intro wf_run wf_init)
  have h: "state.canvas sceneOld \<noteq> None" "data.primitive triangle \<in> Some ` set kinds"
    by code_simp+
  have p: "\<forall>description. snd (plain description)" by (simp add: plain_def)
  have f: "fst (createGeometry key0 plain (Some ''B'') triangle sceneOld) = Inr ''B''"
    by code_simp
  have c: "createGeometry key0 plain (Some ''B'') triangle sceneOld = (Inr ''B'', sceneB)"
    using f by (simp add: sceneB_def prod_eq_iff)
  have v: "undisturbed key0 afterB sceneB ''S1'' ''B''"
    "testGeometryExists ''B'' (run key0 afterB sceneB) = Inr True"
    "testGeometryExists ''A'' (run key0 afterB sceneB) = Inr False"
    "fst (createGeometry key0 plain None triangle sceneOld) = Inr ''type0''"
    "testGeometryExists ''type0'' (snd (createGeometry key0 plain None triangle sceneOld)) = Inr True"
    by code_simp+
  from createGeometry_then_exists[OF w h p, of key0 "Some ''B''"] w h p c v
  show ?thesis by simp
qed

text \<open>
  C8, as stated, fails: testGeometryExists looks the type up in the cache of the active
  surface only (line 223). The triangle is stored as A on S1 and testGeometryExists is
  true. Once S2 is activated it returns false, and once the surface is deactivated it
  throws, although the record is still in its slot in the cache of S1 and nothing was
  destroyed: the log of calls has not grown.
\<close>

theorem createGeometry_then_other_surface:
  "data.primitive triangle \<in> Some ` set kinds
   \<and> createGeometry key0 plain (Some ''A'') triangle sceneTwo = (Inr ''A'', sceneTwoA)
   \<and> slot sceneTwoA ''S1'' ''A'' = Some geoA
   \<and> testGeometryExists ''A'' sceneTwoA = Inr True
   \<and> slot (step key0 (Event (CANVAS_ACTIVATED S2)) sceneTwoA) ''S1'' ''A'' = Some geoA
   \<and> effects (step key0 (Event (CANVAS_ACTIVATED S2)) sceneTwoA) = effects sceneTwoA
   \<and> testGeometryExists ''A'' (step key0 (Event (CANVAS_ACTIVATED S2)) sceneTwoA) = Inr False
   \<and> slot (step key0 (Event CANVAS_DEACTIVATED) sceneTwoA) ''S1'' ''A'' = Some geoA
   \<and> effects (step key0 (Event CANVAS_DEACTIVATED) sceneTwoA) = effects sceneTwoA
   \<and> testGeometryExists ''A'' (step key0 (Event CANVAS_DEACTIVATED) sceneTwoA) = Inl TypeError"
  by code_simp

section \<open>The reset handler\<close>

lemma destroyEach_append: "destroyEach (gs @ hs) s = destroyEach hs (destroyEach gs s)"
  by (induction gs arbitrary: s) simp_all

lemma destroyEach_frame [simp]:
  "time (destroyEach gs s) = time s"
  "document (destroyEach gs s) = document s"
  "state.canvas (destroyEach gs s) = state.canvas s"
  "currentGeoMap (destroyEach gs s) = currentGeoMap s"
  by (induction gs arbitrary: s) simp_all

lemma destroyEach_effects:
  "effects (destroyEach gs s) =
     effects s @ concat (map (\<lambda>geo. if canvasId (geometry.canvas geo) \<in> set (document s)
                                    then destroyBuffers geo else []) gs)"
  by (induction gs arbitrary: s) (simp_all add: destroyGeometry_effects)

lemma map_filter_id_append:
  "List.map_filter id (xs @ ys) = List.map_filter id xs @ List.map_filter id ys"
  by (simp add: List.map_filter_def)

lemma destroyGeometry_other_map:
  "canvasId (geometry.canvas geo) \<noteq> cid
   \<Longrightarrow> map_of (geoMaps (destroyGeometry geo s)) cid = map_of (geoMaps s) cid"
  by (simp add: destroyGeometry_geoMaps map_of_map_entry)

lemma destroyEach_other_map:
  "\<forall>geo \<in> set gs. canvasId (geometry.canvas geo) \<noteq> cid
   \<Longrightarrow> map_of (geoMaps (destroyEach gs s)) cid = map_of (geoMaps s) cid"
  by (induction gs arbitrary: s) (simp_all add: destroyGeometry_other_map)

lemma resetGeoMap_records:
  assumes "distinct (map fst ps)"
    and "\<forall>(ty, geo) \<in> set ps. slot s cid ty = Some geo \<and> type geo = ty
           \<and> canvasId (geometry.canvas geo) = cid"
  shows "resetGeoMap cid (map fst ps) s = (None, destroyEach (map snd ps) s)"
  using assms
proof (induction ps arbitrary: s)
  case Nil
  show ?case by simp
next
  case (Cons p ps)
  obtain ty geo where p: "p = (ty, geo)" by (cases p)
  have g: "slot s cid ty = Some geo" "type geo = ty" "canvasId (geometry.canvas geo) = cid"
    using Cons.prems(2) p by auto
  have "\<forall>(ty', geo') \<in> set ps. slot (destroyGeometry geo s) cid ty' = Some geo' \<and> type geo' = ty'
           \<and> canvasId (geometry.canvas geo') = cid"
  proof (clarify)
    fix ty' geo'
    assume m: "(ty', geo') \<in> set ps"
    then have "ty' \<noteq> ty" using Cons.prems(1) p by force
    then have "slot (destroyGeometry geo s) cid ty' = slot s cid ty'"
      using g(2) by (simp add: slot_destroyGeometry)
    then show "slot (destroyGeometry geo s) cid ty' = Some geo' \<and> type geo' = ty'
           \<and> canvasId (geometry.canvas geo') = cid"
      using Cons.prems(2) m by auto
  qed
  moreover have "distinct (map fst ps)" using Cons.prems(1) by simp
  ultimately have "resetGeoMap cid (map fst ps) (destroyGeometry geo s)
      = (None, destroyEach (map snd ps) (destroyGeometry geo s))"
    by (rule Cons.IH[rotated])
  then show ?case using p g by simp
qed

lemma geoMap_pairs:
  assumes "wfGeoMap cid geoMap" and "None \<notin> snd ` set geoMap"
  shows "map fst (map (\<lambda>(ty, sl). (ty, the sl)) geoMap) = map fst geoMap"
    and "map snd (map (\<lambda>(ty, sl). (ty, the sl)) geoMap) = List.map_filter id (map snd geoMap)"
    and "\<forall>(ty, geo) \<in> set (map (\<lambda>(ty, sl). (ty, the sl)) geoMap).
           map_of geoMap ty = Some (Some geo) \<and> type geo = ty \<and> canvasId (geometry.canvas geo) = cid"
proof -
  show "map fst (map (\<lambda>(ty, sl). (ty, the sl)) geoMap) = map fst geoMap"
    by (induction geoMap) auto
  show "map snd (map (\<lambda>(ty, sl). (ty, the sl)) geoMap) = List.map_filter id (map snd geoMap)"
    using assms(2) by (induction geoMap) (auto simp: List.map_filter_simps split: option.splits)
  have d: "distinct (map fst geoMap)" using assms(1) by (simp add: wfGeoMap_def)
  show "\<forall>(ty, geo) \<in> set (map (\<lambda>(ty, sl). (ty, the sl)) geoMap).
           map_of geoMap ty = Some (Some geo) \<and> type geo = ty \<and> canvasId (geometry.canvas geo) = cid"
  proof (clarsimp)
    fix ty sl
    assume m: "(ty, sl) \<in> set geoMap"
    then obtain geo where sl: "sl = Some geo" using assms(2) by (cases sl) force+
    have "map_of geoMap ty = Some (Some geo)" using d m sl by simp
    moreover have "type geo = ty \<and> canvasId (geometry.canvas geo) = cid"
      using assms(1) m sl by (auto simp: wfGeoMap_def)
    ultimately show "map_of geoMap ty = Some (Some (the sl)) \<and> type (the sl) = ty
        \<and> canvasId (geometry.canvas (the sl)) = cid" using sl by simp
  qed
qed

lemma resetGeoMap_all:
  assumes "map_of (geoMaps s) cid = Some geoMap" and "wfGeoMap cid geoMap"
    and "None \<notin> snd ` set geoMap"
  shows "resetGeoMap cid (map fst geoMap) s
           = (None, destroyEach (List.map_filter id (map snd geoMap)) s)"
proof -
  let ?ps = "map (\<lambda>(ty, sl). (ty, the sl)) geoMap"
  note p = geoMap_pairs[OF assms(2,3)]
  have "distinct (map fst ?ps)" unfolding p(1) using assms(2) by (simp add: wfGeoMap_def)
  moreover have "\<forall>(ty, geo) \<in> set ?ps. slot s cid ty = Some geo \<and> type geo = ty
           \<and> canvasId (geometry.canvas geo) = cid"
    using p(3) assms(1) by (auto simp: slot_def)
  ultimately have "resetGeoMap cid (map fst ?ps) s = (None, destroyEach (map snd ?ps) s)"
    by (rule resetGeoMap_records)
  then show ?thesis unfolding p(1,2) .
qed

lemma resetGeoMaps_all:
  assumes "distinct (map fst gms)"
    and "\<forall>(cid, geoMap) \<in> set gms. map_of (geoMaps s) cid = Some geoMap \<and> wfGeoMap cid geoMap
           \<and> None \<notin> snd ` set geoMap"
  shows "resetGeoMaps (map fst gms) s
           = (None, destroyEach (List.map_filter id (concat (map (\<lambda>(cid, geoMap). map snd geoMap) gms))) s)"
  using assms
proof (induction gms arbitrary: s)
  case Nil
  show ?case by simp
next
  case (Cons p gms)
  obtain cid geoMap where p: "p = (cid, geoMap)" by (cases p)
  have h: "map_of (geoMaps s) cid = Some geoMap" "wfGeoMap cid geoMap" "None \<notin> snd ` set geoMap"
    using Cons.prems(2) p by auto
  let ?gs = "List.map_filter id (map snd geoMap)"
  let ?s1 = "destroyEach ?gs s"
  have r: "resetGeoMap cid (map fst geoMap) s = (None, ?s1)" using h by (rule resetGeoMap_all)
  have own: "\<forall>geo \<in> set ?gs. canvasId (geometry.canvas geo) = cid"
    using h(2) by (auto simp: wfGeoMap_def List.map_filter_def)
  have "\<forall>(cid', geoMap') \<in> set gms. map_of (geoMaps ?s1) cid' = Some geoMap' \<and> wfGeoMap cid' geoMap'
           \<and> None \<notin> snd ` set geoMap'"
  proof (clarify)
    fix cid' geoMap'
    assume m: "(cid', geoMap') \<in> set gms"
    then have "cid' \<noteq> cid" using Cons.prems(1) p by force
    then have "map_of (geoMaps ?s1) cid' = map_of (geoMaps s) cid'"
      using own by (intro destroyEach_other_map) auto
    then show "map_of (geoMaps ?s1) cid' = Some geoMap' \<and> wfGeoMap cid' geoMap'
           \<and> None \<notin> snd ` set geoMap'"
      using Cons.prems(2) m by auto
  qed
  moreover have "distinct (map fst gms)" using Cons.prems(1) by simp
  ultimately have ih: "resetGeoMaps (map fst gms) ?s1
      = (None, destroyEach (List.map_filter id (concat (map (\<lambda>(cid, geoMap). map snd geoMap) gms))) ?s1)"
    by (rule Cons.IH[rotated])
  have c: "concat (map (\<lambda>(cid, geoMap). map snd geoMap) (p # gms))
      = map snd geoMap @ concat (map (\<lambda>(cid, geoMap). map snd geoMap) gms)"
    using p by simp
  have "resetGeoMaps (map fst (p # gms)) s = resetGeoMaps (map fst gms) ?s1"
    using p h(1) r by simp
  also note ih
  also have "destroyEach (List.map_filter id (concat (map (\<lambda>(cid, geoMap). map snd geoMap) gms))) ?s1
      = destroyEach (List.map_filter id (concat (map (\<lambda>(cid, geoMap). map snd geoMap) (p # gms)))) s"
    by (simp only: c map_filter_id_append destroyEach_append)
  finally show ?case .
qed


lemma slots_geoMap:
  assumes "(cid, geoMap) \<in> set (geoMaps s)" and "None \<notin> set (slots s)"
  shows "None \<notin> snd ` set geoMap"
  using assms by (force simp: slots_def)

text \<open>
  C5, as amended. In a reachable state in which no slot holds \<^verbatim>\<open>null\<close>, the reset handler
  runs to its end: it calls destroyGeometry on every record of every cache, in the order
  of the two loops, and then discards the caches and clears the active surface, the
  selected cache and the bound type. What is destroyed of each record is what
  destroyGeometry destroys when the record's canvas is in the page. After the reset no
  surface is active, so testGeometryExists throws; once a surface is activated again it
  returns false for every type.
\<close>

theorem reset_destroys_all:
  assumes "wf s" and "None \<notin> set (slots s)"
  shows "onEvent RESET s =
           (None, (destroyEach (records s) s)\<lparr>state.canvas := None, geoMaps := [],
                     currentGeoMap := None, currentBoundGeoType := None\<rparr>)
    \<and> effects (snd (onEvent RESET s)) =
          effects s @ concat (map (\<lambda>geo. if canvasId (geometry.canvas geo) \<in> set (document s)
                                         then destroyBuffers geo else []) (records s))
    \<and> geoMaps (snd (onEvent RESET s)) = [] \<and> state.canvas (snd (onEvent RESET s)) = None
    \<and> currentGeoMap (snd (onEvent RESET s)) = None
    \<and> currentBoundGeoType (snd (onEvent RESET s)) = None
    \<and> testGeometryExists ty (snd (onEvent RESET s)) = Inl TypeError
    \<and> testGeometryExists ty (snd (onEvent (CANVAS_ACTIVATED c) (snd (onEvent RESET s)))) = Inr False"
proof -
  have d: "distinct (map fst (geoMaps s))" using assms(1) by (simp add: wf_def)
  have "\<forall>(cid, geoMap) \<in> set (geoMaps s). map_of (geoMaps s) cid = Some geoMap \<and> wfGeoMap cid geoMap
           \<and> None \<notin> snd ` set geoMap"
  proof (clarify)
    fix cid geoMap
    assume m: "(cid, geoMap) \<in> set (geoMaps s)"
    have "map_of (geoMaps s) cid = Some geoMap" using d m by simp
    moreover have "wfGeoMap cid geoMap" using assms(1) m by (auto simp: wf_def)
    moreover have "None \<notin> snd ` set geoMap" using m assms(2) by (rule slots_geoMap)
    ultimately show "map_of (geoMaps s) cid = Some geoMap \<and> wfGeoMap cid geoMap
           \<and> None \<notin> snd ` set geoMap" by simp
  qed
  with d have "resetGeoMaps (map fst (geoMaps s)) s
      = (None, destroyEach (List.map_filter id (concat (map (\<lambda>(cid, geoMap). map snd geoMap) (geoMaps s)))) s)"
    by (rule resetGeoMaps_all)
  then have r: "resetGeoMaps (map fst (geoMaps s)) s = (None, destroyEach (records s) s)"
    by (simp add: records_def slots_def)
  have 1: "onEvent RESET s =
           (None, (destroyEach (records s) s)\<lparr>state.canvas := None, geoMaps := [],
                     currentGeoMap := None, currentBoundGeoType := None\<rparr>)"
    using r by simp
  show ?thesis unfolding 1
    by (simp add: destroyEach_effects testGeometryExists_def slot_def)
qed

text \<open>The theorem after A and B were created on S1.\<close>

theorem reset_destroys_all_witness:
  "wf sceneAB \<and> None \<notin> set (slots sceneAB)
   \<and> length (records sceneAB) = 2
   \<and> onEvent RESET sceneAB =
           (None, (destroyEach (records sceneAB) sceneAB)\<lparr>state.canvas := None, geoMaps := [],
                     currentGeoMap := None, currentBoundGeoType := None\<rparr>)
   \<and> geoMaps (snd (onEvent RESET sceneAB)) = []
   \<and> testGeometryExists ''A'' (snd (onEvent RESET sceneAB)) = Inl TypeError
   \<and> testGeometryExists ''A'' (snd (onEvent (CANVAS_ACTIVATED S1) (snd (onEvent RESET sceneAB)))) = Inr False
   \<and> testGeometryExists ''B'' (snd (onEvent (CANVAS_ACTIVATED S1) (snd (onEvent RESET sceneAB)))) = Inr False"
proof -
  have w: "wf sceneAB" unfolding sceneAB_def by (intro wf_run wf_init)
  have n: "None \<notin> set (slots sceneAB)" "length (records sceneAB) = 2" by code_simp+
  from reset_destroys_all[OF w n(1), of "''A''" S1] reset_destroys_all[OF w n(1), of "''B''" S1] w n
  show ?thesis by blast
qed

text \<open>
  C5, as stated, fails twice. After A and B were created on S1, the reset runs to its end
  and testGeometryExists then throws a TypeError for both instead of returning false. And
  in the scene where the evictor has left \<^verbatim>\<open>null\<close> in the slot of A, the handler calls
  \<^verbatim>\<open>destroyGeometry(null)\<close>, which throws before B is destroyed, before the caches are
  discarded and before the active surface is cleared.
\<close>

theorem reset_scenario_failures:
  "fst (onEvent RESET sceneAB) = None
   \<and> testGeometryExists ''A'' (snd (onEvent RESET sceneAB)) = Inl TypeError
   \<and> testGeometryExists ''B'' (snd (onEvent RESET sceneAB)) = Inl TypeError
   \<and> slot sceneEvicted ''S1'' ''B'' \<noteq> None
   \<and> fst (onEvent RESET sceneEvicted) = Some TypeError
   \<and> slot (snd (onEvent RESET sceneEvicted)) ''S1'' ''B'' \<noteq> None
   \<and> geoMaps (snd (onEvent RESET sceneEvicted)) \<noteq> []
   \<and> state.canvas (snd (onEvent RESET sceneEvicted)) \<noteq> None"
  by code_simp

text \<open>
  C6. The claim: every operation keeps the bound type pointing at a record of the active
  cache, and a reset (among others) clears the bound type. The invariant holds
  (\<open>boundValid_step\<close>), and the other events clear the bound type (\<open>bound_type_cleared\<close>).
  But in the scene where A was evicted and B is bound, the reset handler throws at the
  \<^verbatim>\<open>null\<close> slot of A and leaves B bound.
\<close>

theorem reset_keeps_bound_type:
  "currentBoundGeoType sceneBound = Some ''B''
   \<and> map_of (geoMaps sceneBound) ''S1'' = Some [(''A'', None), (''B'', slot sceneBound ''S1'' ''B'')]
   \<and> slot sceneBound ''S1'' ''B'' \<noteq> None
   \<and> fst (onEvent RESET sceneBound) = Some TypeError
   \<and> currentBoundGeoType (snd (onEvent RESET sceneBound)) = Some ''B''
   \<and> boundValid (snd (onEvent RESET sceneBound))"
  by code_simp

lemma bound_type_cleared:
  "ev \<in> {SCENE_ACTIVATED, CANVAS_ACTIVATED c, CANVAS_DEACTIVATED, SHADER_ACTIVATED, SHADER_DEACTIVATED}
     \<Longrightarrow> currentBoundGeoType (snd (onEvent ev s)) = None"
  "onEvent RESET s = (None, s') \<Longrightarrow> currentBoundGeoType s' = None"
  "currentBoundGeoType s = Some (type geo) \<Longrightarrow> currentBoundGeoType (destroyGeometry geo s) = None"
  by (auto simp: Let_def destroyGeometry_bound split: prod.splits option.splits)

end
